theory Spec2Isabelle
  imports Complex_Main
begin

section \<open>Cells, errors and the grid container\<close>

text \<open>
  A grid position holds \<^verbatim>\<open>None\<close>, a \<^verbatim>\<open>Wall()\<close> or a \<^verbatim>\<open>Coin()\<close>
  (\<^verbatim>\<open>maze_env.py\<close>, class \<^verbatim>\<open>Coin\<close>); \<open>Empty\<close> stands for \<^verbatim>\<open>None\<close>.
\<close>

datatype cell = Empty | Wall | Coin

datatype error = BoundsError | IndexError | InvalidActionError

text \<open>
  Modelled from the spec: the \<^verbatim>\<open>Grid\<close> class (imported from \<^verbatim>\<open>minigrid.core.grid\<close>, not
  under src/). The spec describes it as a fixed-size width x height array of cells, pure
  data, with no behaviour beyond get and set with bounds checks. A coordinate outside
  \<open>[0,width) x [0,height)\<close> makes \<open>get\<close> and \<open>set\<close> raise; \<open>BoundsError\<close> names that
  failure. A fresh grid holds \<^verbatim>\<open>None\<close> everywhere.
\<close>

record grid =
  width :: int
  height :: int
  cells :: "int \<times> int \<Rightarrow> cell"

definition Grid :: "int \<Rightarrow> int \<Rightarrow> grid" where
  "Grid w h = \<lparr>width = w, height = h, cells = (\<lambda>p. Empty)\<rparr>"

definition in_bounds :: "grid \<Rightarrow> int \<Rightarrow> int \<Rightarrow> bool" where
  "in_bounds g i j = (0 \<le> i \<and> i < width g \<and> 0 \<le> j \<and> j < height g)"

definition grid_get :: "grid \<Rightarrow> int \<Rightarrow> int \<Rightarrow> error + cell" where
  "grid_get g i j = (if in_bounds g i j then Inr (cells g (i, j)) else Inl BoundsError)"

definition grid_set :: "grid \<Rightarrow> int \<Rightarrow> int \<Rightarrow> cell \<Rightarrow> error + grid" where
  "grid_set g i j v =
     (if in_bounds g i j then Inr (g\<lparr>cells := (cells g)((i, j) := v)\<rparr>) else Inl BoundsError)"

text \<open>All coordinates of a grid, and the number of Coin cells it holds.\<close>

definition coords :: "grid \<Rightarrow> (int \<times> int) list" where
  "coords g = concat (map (\<lambda>x. map (\<lambda>y. (x, y)) [0..height g - 1]) [0..width g - 1])"

definition count_coins :: "grid \<Rightarrow> nat" where
  "count_coins g = length (filter (\<lambda>p. cells g p = Coin) (coords g))"

section \<open>Statements that mutate and may raise\<close>

text \<open>
  A Python statement sequence that mutates the object and may raise is a function from the
  state to an outcome. \<open>Raised e s\<close> keeps the state \<open>s\<close> as it was when the exception
  \<open>e\<close> left the code: whatever had been mutated before stays mutated.
\<close>

datatype 's outcome = Done 's | Raised error 's

definition and_then :: "'s outcome \<Rightarrow> ('s \<Rightarrow> 's outcome) \<Rightarrow> 's outcome" where
  "and_then r f = (case r of Done s \<Rightarrow> f s | Raised e s \<Rightarrow> Raised e s)"

text \<open>\<^verbatim>\<open>for x in xs: body\<close>; the loop stops at the first exception.\<close>

fun for_each :: "'a list \<Rightarrow> ('a \<Rightarrow> 's \<Rightarrow> 's outcome) \<Rightarrow> 's \<Rightarrow> 's outcome" where
  "for_each [] body s = Done s"
| "for_each (x # xs) body s =
     (case body x s of Done s' \<Rightarrow> for_each xs body s' | Raised e s' \<Rightarrow> Raised e s')"

text \<open>\<^verbatim>\<open>range(a, b)\<close> of Python, as the list of its values.\<close>

definition py_range :: "int \<Rightarrow> int \<Rightarrow> int list" where
  "py_range a b = [a..b - 1]"

section \<open>The navigation policies\<close>

text \<open>Action constants of both agents: \<^verbatim>\<open>TURN_LEFT = 0\<close>, \<^verbatim>\<open>TURN_RIGHT = 1\<close>, \<^verbatim>\<open>MOVE_FORWARD = 2\<close>.\<close>

definition TURN_LEFT :: int where "TURN_LEFT = 0"
definition TURN_RIGHT :: int where "TURN_RIGHT = 1"
definition MOVE_FORWARD :: int where "MOVE_FORWARD = 2"

subsection \<open>ProductionRulesAgent\<close>

text \<open>The perception dictionary of \<^verbatim>\<open>ProductionRulesAgent.perceive\<close>: eight is-wall flags, the keys
  written out (Top-Left, Top-Front, Top-Right, Mid-Left, Mid-Right, Bot-Left, Bot-Front, Bot-Right).\<close>

record perception8 =
  top_left :: bool
  top_front :: bool
  top_right :: bool
  mid_left :: bool
  mid_right :: bool
  bot_left :: bool
  bot_front :: bool
  bot_right :: bool

text \<open>
  \<^verbatim>\<open>ProductionRulesAgent._decide_left_hand\<close> (production_rules_agent.py, lines 99-123): the
  body is the three rules as comments under a TODO, followed by \<^verbatim>\<open>pass\<close>. The function
  therefore returns Python's \<^verbatim>\<open>None\<close> for every perception, here \<open>None\<close> of
  \<open>int option\<close>.
\<close>

definition pr_decide_left_hand :: "perception8 \<Rightarrow> int option" where
  "pr_decide_left_hand p = None"

text \<open>The three rules as the class docstring and the comments of the stub state them.\<close>

definition pr_documented_rules :: "perception8 \<Rightarrow> int" where
  "pr_documented_rules p =
     (if top_front p \<or> top_right p then TURN_RIGHT
      else if \<not> mid_left p \<and> bot_left p then TURN_LEFT
      else MOVE_FORWARD)"

subsection \<open>StateMachineAgent\<close>

definition FOLLOW_WALL :: string where "FOLLOW_WALL = ''FOLLOW_WALL''"
definition FIND_WALL :: string where "FIND_WALL = ''FIND_WALL''"
definition TURN_CORNER :: string where "TURN_CORNER = ''TURN_CORNER''"

text \<open>The perception dictionary of \<^verbatim>\<open>StateMachineAgent.perceive\<close>: the keys Top-Front,
  Mid-Left and Mid-Right, under the names the function gives them.\<close>

record perception3 =
  wall_ahead :: bool
  wall_on_left :: bool
  wall_on_right :: bool

text \<open>
  \<^verbatim>\<open>StateMachineAgent._decide_left_hand\<close> (state_machine_agent.py, lines 87-147). The agent's
  only mutable field read or written here is \<^verbatim>\<open>self.state\<close>, a string; the function
  returns the new state together with the action.
\<close>

definition sm_decide_left_hand :: "string \<Rightarrow> perception3 \<Rightarrow> string \<times> int" where
  "sm_decide_left_hand state p =
     (if state = FOLLOW_WALL then
        (if wall_ahead p then (TURN_CORNER, TURN_RIGHT)
         else if wall_on_left p = False then (FIND_WALL, TURN_LEFT)
         else (state, MOVE_FORWARD))
      else if state = FIND_WALL then
        (if wall_ahead p then (FOLLOW_WALL, TURN_RIGHT)
         else if wall_on_left p then (FOLLOW_WALL, MOVE_FORWARD)
         else (state, MOVE_FORWARD))
      else if state = TURN_CORNER then
        (if wall_on_left p \<and> wall_ahead p = False then (FOLLOW_WALL, MOVE_FORWARD)
         else (state, TURN_RIGHT))
      else (state, MOVE_FORWARD))"

section \<open>The maze environment\<close>

text \<open>
  The dictionaries of \<^verbatim>\<open>walls_config\<close>, \<^verbatim>\<open>custom_cells\<close> and \<^verbatim>\<open>clear_areas\<close>, with
  the keys the code reads. \<open>fixed\<close> is the key \<^verbatim>\<open>'y'\<close> of a horizontal wall and
  \<^verbatim>\<open>'x'\<close> of a vertical one; a missing \<^verbatim>\<open>'gaps'\<close> is the empty list.
\<close>

record wall_cfg =
  wall_type :: string
  fixed :: int
  start :: int
  stop :: int
  gaps :: "(int \<times> int) list"

record cell_cfg =
  cell_x :: int
  cell_y :: int
  cell_type :: string

record area =
  area_x1 :: int
  area_y1 :: int
  area_x2 :: int
  area_y2 :: int

text \<open>
  The fields of a \<^verbatim>\<open>MazeEnv\<close> object: the constructor's arguments, which no method
  changes, and the mutable state. \<open>maze_width\<close> and \<open>maze_height\<close> are also the
  \<^verbatim>\<open>self.width\<close> and \<^verbatim>\<open>self.height\<close> the constructor hands to the base class.
\<close>

record env =
  maze_width :: int
  maze_height :: int
  reward_type :: string
  walls_config :: "wall_cfg list"
  custom_cells :: "cell_cfg list"
  clear_areas :: "area list"
  agent_start_pos :: "int \<times> int"
  agent_start_dir :: int
  max_steps :: int
  agent_view_size :: int
  grid :: grid
  agent_pos :: "int \<times> int"
  agent_dir :: int
  step_count :: int
  rewards_collected :: int
  total_rewards :: int

text \<open>\<^verbatim>\<open>MazeEnv.__init__\<close>: a square maze of the given size, nothing generated yet.\<close>

definition MazeEnv ::
  "int \<Rightarrow> int \<Rightarrow> int \<Rightarrow> string \<Rightarrow> wall_cfg list \<Rightarrow> cell_cfg list \<Rightarrow> area list
   \<Rightarrow> int \<times> int \<Rightarrow> int \<Rightarrow> env" where
  "MazeEnv sz view_size steps rtype walls custom clear start_pos start_dir =
     \<lparr>maze_width = sz, maze_height = sz, reward_type = rtype, walls_config = walls,
      custom_cells = custom, clear_areas = clear, agent_start_pos = start_pos,
      agent_start_dir = start_dir, max_steps = steps, agent_view_size = view_size,
      grid = Grid sz sz, agent_pos = start_pos, agent_dir = start_dir,
      step_count = 0, rewards_collected = 0, total_rewards = 0\<rparr>"

subsection \<open>Grid accesses of the environment\<close>

text \<open>\<^verbatim>\<open>self.grid.set(i, j, v)\<close>.\<close>

definition set_cell :: "int \<Rightarrow> int \<Rightarrow> cell \<Rightarrow> env \<Rightarrow> env outcome" where
  "set_cell i j v s =
     (case grid_set (grid s) i j v of
        Inl e \<Rightarrow> Raised e s
      | Inr g \<Rightarrow> Done (s\<lparr>grid := g\<rparr>))"

text \<open>\<^verbatim>\<open>if self.grid.get(i, j) is None: self.grid.set(i, j, Wall())\<close>.\<close>

definition wall_if_none :: "int \<Rightarrow> int \<Rightarrow> env \<Rightarrow> env outcome" where
  "wall_if_none i j s =
     (case grid_get (grid s) i j of
        Inl e \<Rightarrow> Raised e s
      | Inr c \<Rightarrow> if c = Empty then set_cell i j Wall s else Done s)"

subsection \<open>Walls\<close>

text \<open>The inner loop over \<^verbatim>\<open>gaps\<close> with its \<^verbatim>\<open>break\<close>.\<close>

fun in_gap :: "(int \<times> int) list \<Rightarrow> int \<Rightarrow> bool" where
  "in_gap [] x = False"
| "in_gap ((gap_start, gap_end) # rest) x =
     (if gap_start \<le> x \<and> x \<le> gap_end then True else in_gap rest x)"

text \<open>\<^verbatim>\<open>_add_wall_from_config\<close> (lines 185-230).\<close>

definition add_wall_from_config :: "wall_cfg \<Rightarrow> env \<Rightarrow> env outcome" where
  "add_wall_from_config config s =
     (if wall_type config = ''horizontal'' then
        for_each (py_range (start config) (stop config + 1))
          (\<lambda>x s. if \<not> in_gap (gaps config) x then wall_if_none x (fixed config) s else Done s) s
      else if wall_type config = ''vertical'' then
        for_each (py_range (start config) (stop config + 1))
          (\<lambda>y s. if \<not> in_gap (gaps config) y then wall_if_none (fixed config) y s else Done s) s
      else Done s)"

text \<open>\<^verbatim>\<open>_add_default_internal_walls\<close> (lines 153-183).\<close>

definition add_default_internal_walls :: "int \<Rightarrow> int \<Rightarrow> env \<Rightarrow> env outcome" where
  "add_default_internal_walls w h s =
     (let room_x = w div 2; room_y = h div 4; room_size = 4 in
      and_then (and_then (and_then (and_then (and_then (and_then (and_then
        (for_each (py_range 3 (h - 3))
           (\<lambda>j s. if j \<notin> set [6, 7, 8] then set_cell 5 j Wall s else Done s) s)
        (for_each (py_range 3 (h - 3))
           (\<lambda>j s. if j \<notin> set [6, 7, 8] then set_cell (w - 6) j Wall s else Done s)))
        (for_each (py_range 3 (w - 3))
           (\<lambda>i s. if i \<notin> set [6, 7, 8, w - 7, w - 8, w - 9]
                   then set_cell i (h div 2) Wall s else Done s)))
        (for_each (py_range 0 room_size)
           (\<lambda>i s. and_then (set_cell (room_x + i) room_y Wall s)
                     (set_cell (room_x + i) (room_y + room_size - 1) Wall))))
        (for_each (py_range 0 room_size)
           (\<lambda>j s. and_then (set_cell room_x (room_y + j) Wall s)
                     (set_cell (room_x + room_size - 1) (room_y + j) Wall))))
        (set_cell (room_x + 1) room_y Empty))
        (set_cell (room_x + 2) room_y Empty))
        Done)"

text \<open>\<^verbatim>\<open>_add_internal_walls\<close> (lines 140-151).\<close>

definition add_internal_walls :: "int \<Rightarrow> int \<Rightarrow> env \<Rightarrow> env outcome" where
  "add_internal_walls w h s =
     (if walls_config s = [] then add_default_internal_walls w h s
      else for_each (walls_config s) add_wall_from_config s)"

subsection \<open>Rewards\<close>

text \<open>
  The placement loops carry the local counter \<^verbatim>\<open>rewards_placed\<close> beside the object.
  \<^verbatim>\<open>if self.grid.get(i, j) is None: self.grid.set(i, j, Coin(...)); rewards_placed += 1\<close>.
\<close>

definition coin_if_none :: "int \<Rightarrow> int \<Rightarrow> int \<times> env \<Rightarrow> (int \<times> env) outcome" where
  "coin_if_none i j ns =
     (case grid_get (grid (snd ns)) i j of
        Inl e \<Rightarrow> Raised e ns
      | Inr c \<Rightarrow>
          if c = Empty then
            (case grid_set (grid (snd ns)) i j Coin of
               Inl e \<Rightarrow> Raised e ns
             | Inr g \<Rightarrow> Done (fst ns + 1, (snd ns)\<lparr>grid := g\<rparr>))
          else Done ns)"

text \<open>\<^verbatim>\<open>_place_outer_boundary_rewards\<close> (lines 255-283), started with the counter at 0.\<close>

definition place_outer_boundary_rewards :: "int \<Rightarrow> int \<Rightarrow> env \<Rightarrow> (int \<times> env) outcome" where
  "place_outer_boundary_rewards w h s =
     and_then (and_then (and_then
       (for_each (py_range 1 (w - 1)) (\<lambda>i. coin_if_none i 1) (0, s))
       (for_each (py_range 1 (w - 1)) (\<lambda>i. coin_if_none i (h - 2))))
       (for_each (py_range 2 (h - 2)) (\<lambda>j. coin_if_none 1 j)))
       (for_each (py_range 2 (h - 2)) (\<lambda>j. coin_if_none (w - 2) j))"

text \<open>\<^verbatim>\<open>_is_next_to_wall\<close> (lines 300-306): the first wall among the four neighbours returns.\<close>

fun next_to_wall_loop :: "grid \<Rightarrow> int \<Rightarrow> int \<Rightarrow> (int \<times> int) list \<Rightarrow> error + bool" where
  "next_to_wall_loop g x y [] = Inr False"
| "next_to_wall_loop g x y ((dx, dy) # rest) =
     (case grid_get g (x + dx) (y + dy) of
        Inl e \<Rightarrow> Inl e
      | Inr c \<Rightarrow> if c = Wall then Inr True else next_to_wall_loop g x y rest)"

definition is_next_to_wall :: "grid \<Rightarrow> int \<Rightarrow> int \<Rightarrow> error + bool" where
  "is_next_to_wall g x y = next_to_wall_loop g x y [(0, 1), (0, -1), (1, 0), (-1, 0)]"

text \<open>The body of the double loop of \<^verbatim>\<open>_place_inner_boundary_rewards\<close>.\<close>

definition inner_coin :: "int \<Rightarrow> int \<Rightarrow> int \<times> env \<Rightarrow> (int \<times> env) outcome" where
  "inner_coin i j ns =
     (case grid_get (grid (snd ns)) i j of
        Inl e \<Rightarrow> Raised e ns
      | Inr c \<Rightarrow>
          if c = Empty then
            (case is_next_to_wall (grid (snd ns)) i j of
               Inl e \<Rightarrow> Raised e ns
             | Inr b \<Rightarrow>
                 if b then
                   (case grid_set (grid (snd ns)) i j Coin of
                      Inl e \<Rightarrow> Raised e ns
                    | Inr g \<Rightarrow> Done (fst ns + 1, (snd ns)\<lparr>grid := g\<rparr>))
                 else Done ns)
          else Done ns)"

text \<open>\<^verbatim>\<open>_place_inner_boundary_rewards\<close> (lines 285-298).\<close>

definition place_inner_boundary_rewards :: "int \<Rightarrow> int \<Rightarrow> env \<Rightarrow> (int \<times> env) outcome" where
  "place_inner_boundary_rewards w h s =
     for_each (py_range 2 (w - 2))
       (\<lambda>i. for_each (py_range 2 (h - 2)) (\<lambda>j. inner_coin i j)) (0, s)"

text \<open>\<^verbatim>\<open>rewards_placed += self._place_...(width, height)\<close>.\<close>

definition add_placed ::
  "(env \<Rightarrow> (int \<times> env) outcome) \<Rightarrow> int \<times> env \<Rightarrow> (int \<times> env) outcome" where
  "add_placed place ns =
     (case place (snd ns) of
        Done r \<Rightarrow> Done (fst ns + fst r, snd r)
      | Raised e r \<Rightarrow> Raised e (fst ns, snd r))"

text \<open>\<^verbatim>\<open>_place_rewards\<close> (lines 232-253).\<close>

definition place_rewards :: "int \<Rightarrow> int \<Rightarrow> env \<Rightarrow> env outcome" where
  "place_rewards w h s =
     (case
        (if reward_type s = ''outer'' then
           add_placed (place_outer_boundary_rewards w h) (0, s)
         else if reward_type s = ''inner'' then
           add_placed (place_inner_boundary_rewards w h) (0, s)
         else if reward_type s = ''both'' then
           and_then (add_placed (place_outer_boundary_rewards w h) (0, s))
             (add_placed (place_inner_boundary_rewards w h))
         else
           and_then (add_placed (place_outer_boundary_rewards w h) (0, s))
             (add_placed (place_inner_boundary_rewards w h)))
      of
        Done r \<Rightarrow> Done ((snd r)\<lparr>total_rewards := fst r\<rparr>)
      | Raised e r \<Rightarrow> Raised e (snd r))"

subsection \<open>Overrides and cleared areas\<close>

text \<open>The body of the loop of \<^verbatim>\<open>_apply_custom_cells\<close> (lines 308-328).\<close>

definition apply_custom_cell :: "cell_cfg \<Rightarrow> env \<Rightarrow> env outcome" where
  "apply_custom_cell cell_cfg s =
     (let x = cell_x cell_cfg; y = cell_y cell_cfg in
      if cell_type cell_cfg = ''wall'' then set_cell x y Wall s
      else if cell_type cell_cfg = ''empty'' then
        (case grid_get (grid s) x y of
           Inl e \<Rightarrow> Raised e s
         | Inr c \<Rightarrow>
             set_cell x y Empty
               (if c = Coin then s\<lparr>total_rewards := total_rewards s - 1\<rparr> else s))
      else if cell_type cell_cfg = ''coin'' then
        (case grid_get (grid s) x y of
           Inl e \<Rightarrow> Raised e s
         | Inr c \<Rightarrow>
             set_cell x y Coin
               (if c \<noteq> Coin then s\<lparr>total_rewards := total_rewards s + 1\<rparr> else s))
      else Done s)"

definition apply_custom_cells :: "env \<Rightarrow> env outcome" where
  "apply_custom_cells s = for_each (custom_cells s) apply_custom_cell s"

text \<open>\<^verbatim>\<open>clear_rectangle\<close> (lines 330-345) and its loop body.\<close>

definition clear_cell :: "int \<Rightarrow> int \<Rightarrow> env \<Rightarrow> env outcome" where
  "clear_cell x y s =
     (case grid_get (grid s) x y of
        Inl e \<Rightarrow> Raised e s
      | Inr c \<Rightarrow>
          set_cell x y Empty
            (if c = Coin then s\<lparr>total_rewards := total_rewards s - 1\<rparr> else s))"

definition clear_rectangle :: "int \<Rightarrow> int \<Rightarrow> int \<Rightarrow> int \<Rightarrow> env \<Rightarrow> env outcome" where
  "clear_rectangle x1 y1 x2 y2 s =
     for_each (py_range x1 (x2 + 1)) (\<lambda>x. for_each (py_range y1 (y2 + 1)) (\<lambda>y. clear_cell x y)) s"

text \<open>\<^verbatim>\<open>_apply_clear_areas\<close> (lines 347-356).\<close>

definition apply_clear_areas :: "env \<Rightarrow> env outcome" where
  "apply_clear_areas s =
     for_each (clear_areas s)
       (\<lambda>a. clear_rectangle (area_x1 a) (area_y1 a) (area_x2 a) (area_y2 a)) s"

subsection \<open>Generation\<close>

text \<open>The two border loops at the head of \<^verbatim>\<open>_gen_grid\<close> (lines 113-119).\<close>

definition outer_boundary :: "int \<Rightarrow> int \<Rightarrow> env \<Rightarrow> env outcome" where
  "outer_boundary w h s =
     and_then
       (for_each (py_range 0 w)
          (\<lambda>i s. and_then (set_cell i 0 Wall s) (set_cell i (h - 1) Wall)) s)
       (for_each (py_range 0 h)
          (\<lambda>j s. and_then (set_cell 0 j Wall s) (set_cell (w - 1) j Wall)))"

text \<open>
  \<^verbatim>\<open>_gen_grid\<close> (lines 106-138). The mission string, which only formats the two
  counters, is left out.
\<close>

definition gen_grid :: "int \<Rightarrow> int \<Rightarrow> env \<Rightarrow> env outcome" where
  "gen_grid w h s =
     and_then (and_then (and_then (and_then (and_then
       (outer_boundary w h (s\<lparr>grid := Grid w h\<rparr>))
       (add_internal_walls w h))
       (\<lambda>s. Done (s\<lparr>agent_pos := agent_start_pos s, agent_dir := agent_start_dir s\<rparr>)))
       (place_rewards w h))
       apply_custom_cells)
       apply_clear_areas"

subsection \<open>Observation\<close>

text \<open>Indexing a Python list: a negative index counts from the end, any other misses.\<close>

definition py_index :: "'a list \<Rightarrow> int \<Rightarrow> error + 'a" where
  "py_index xs i =
     (if 0 \<le> i \<and> i < int (length xs) then Inr (xs ! nat i)
      else if - int (length xs) \<le> i \<and> i < 0 then Inr (xs ! nat (i + int (length xs)))
      else Inl IndexError)"

text \<open>The two tables of \<^verbatim>\<open>gen_obs_grid\<close> (lines 445-458).\<close>

definition dir_vec :: "(int \<times> int) list" where
  "dir_vec = [(1, 0), (0, 1), (-1, 0), (0, -1)]"

definition right_vec :: "(int \<times> int) list" where
  "right_vec = [(0, 1), (-1, 0), (0, -1), (1, 0)]"

text \<open>The world coordinate of a view coordinate (lines 471-476).\<close>

definition world_pos ::
  "int \<times> int \<Rightarrow> int \<times> int \<Rightarrow> int \<times> int \<Rightarrow> int \<Rightarrow> int \<Rightarrow> int \<Rightarrow> int \<times> int" where
  "world_pos a fwd rgt offset view_x view_y =
     (let rel_right = view_x - offset; rel_forward = offset - view_y in
      (fst a + (rel_forward * fst fwd) + (rel_right * fst rgt),
       snd a + (rel_forward * snd fwd) + (rel_right * snd rgt)))"

text \<open>The body of the double loop of \<^verbatim>\<open>gen_obs_grid\<close> (lines 478-487), on the view grid.\<close>

definition obs_cell ::
  "env \<Rightarrow> int \<times> int \<Rightarrow> int \<times> int \<Rightarrow> int \<Rightarrow> int \<Rightarrow> int \<Rightarrow> grid \<Rightarrow> grid outcome" where
  "obs_cell s fwd rgt offset view_x view_y v =
     (let world = world_pos (agent_pos s) fwd rgt offset view_x view_y;
          world_x = fst world; world_y = snd world in
      if 0 \<le> world_x \<and> world_x < maze_width s \<and> 0 \<le> world_y \<and> world_y < maze_height s then
        (if (world_x, world_y) \<noteq> agent_pos s then
           (case grid_get (grid s) world_x world_y of
              Inl e \<Rightarrow> Raised e v
            | Inr c \<Rightarrow>
                if c \<noteq> Empty then
                  (case grid_set v view_x view_y c of Inl e \<Rightarrow> Raised e v | Inr v' \<Rightarrow> Done v')
                else Done v)
         else Done v)
      else
        (case grid_set v view_x view_y Wall of Inl e \<Rightarrow> Raised e v | Inr v' \<Rightarrow> Done v'))"

text \<open>
  \<^verbatim>\<open>gen_obs_grid\<close> (lines 422-489) with \<^verbatim>\<open>agent_view_size\<close> given. The visibility mask
  is constantly true and is left out.
\<close>

definition gen_obs_grid :: "env \<Rightarrow> int \<Rightarrow> error + grid" where
  "gen_obs_grid s view_size =
     (let offset = view_size div 2 in
      case py_index dir_vec (agent_dir s) of
        Inl e \<Rightarrow> Inl e
      | Inr fwd \<Rightarrow>
         (case py_index right_vec (agent_dir s) of
            Inl e \<Rightarrow> Inl e
          | Inr rgt \<Rightarrow>
             (case for_each (py_range 0 view_size)
                     (\<lambda>view_x. for_each (py_range 0 view_size)
                        (\<lambda>view_y. obs_cell s fwd rgt offset view_x view_y))
                     (Grid view_size view_size) of
                Done v \<Rightarrow> Inr v
              | Raised e v \<Rightarrow> Inl e)))"

text \<open>
  \<^verbatim>\<open>gen_obs\<close> (lines 491-516). The image is the library's encoding of the view grid with
  the centre overwritten by the agent and its direction; the observation is kept as the
  view grid and the direction.
\<close>

record obs =
  view :: grid
  direction :: int

definition gen_obs :: "env \<Rightarrow> error + obs" where
  "gen_obs s =
     (case gen_obs_grid s (agent_view_size s) of
        Inl e \<Rightarrow> Inl e
      | Inr v \<Rightarrow> Inr \<lparr>view = v, direction = agent_dir s\<rparr>)"

subsection \<open>Reset and step\<close>

text \<open>A method that returns a value: the value and the object, or the exception and the object.\<close>

datatype 'a returned = Return 'a env | Raise error env

record info =
  reward_collected :: bool
  info_rewards_collected :: int
  info_total_rewards :: int
  success :: bool

record step_result =
  step_obs :: obs
  reward :: real
  terminated :: bool
  truncated :: bool
  step_info :: info

text \<open>
  Modelled from the spec: \<^verbatim>\<open>MiniGridEnv.reset\<close>, the base class method that
  \<^verbatim>\<open>MazeEnv.reset\<close> calls through \<^verbatim>\<open>super()\<close> (library code, not under src/). The spec:
  reset rebuilds the grid through the generation of the maze and zeroes the step counter.
\<close>

definition base_reset :: "env \<Rightarrow> env outcome" where
  "base_reset s =
     and_then (gen_grid (maze_width s) (maze_height s) s) (\<lambda>s. Done (s\<lparr>step_count := 0\<rparr>))"

text \<open>\<^verbatim>\<open>MazeEnv.reset\<close> (lines 400-420); the info dictionary holds the two counters.\<close>

definition reset :: "env \<Rightarrow> (obs \<times> int \<times> int) returned" where
  "reset s =
     (case base_reset s of
        Raised e s' \<Rightarrow> Raise e s'
      | Done s1 \<Rightarrow>
          (let s2 = s1\<lparr>agent_pos := agent_start_pos s1, agent_dir := agent_start_dir s1,
                       rewards_collected := 0\<rparr> in
           case gen_obs s2 of
             Inl e \<Rightarrow> Raise e s2
           | Inr ob \<Rightarrow> Return (ob, rewards_collected s2, total_rewards s2) s2))"

text \<open>
  Modelled from the spec: \<^verbatim>\<open>MiniGridEnv.step\<close>, the base class method that
  \<^verbatim>\<open>MazeEnv.step\<close> calls through \<^verbatim>\<open>super()\<close> (library code, not under src/). The spec,
  section 4.3: every call increments the step counter once; TurnLeft (0) and TurnRight
  (1) set the direction to (direction + 3) mod 4 and (direction + 1) mod 4 and leave the
  position; MoveForward (2) takes the candidate position + F(direction) and moves there
  unless the candidate is out of bounds or a Wall, in which case the position stays; an
  action outside 0, 1, 2 is an InvalidActionError; truncated holds once the step counter
  reaches \<open>max_steps\<close>; the reward is 0 and terminated is false. The observation is
  \<^verbatim>\<open>self.gen_obs()\<close>, which is the method of \<^verbatim>\<open>MazeEnv\<close>.
\<close>

definition base_step :: "int \<Rightarrow> env \<Rightarrow> (obs \<times> real \<times> bool \<times> bool) returned" where
  "base_step action s0 =
     (let s = s0\<lparr>step_count := step_count s0 + 1\<rparr> in
      case
        (if action = 0 then Done (s\<lparr>agent_dir := (agent_dir s + 3) mod 4\<rparr>)
         else if action = 1 then Done (s\<lparr>agent_dir := (agent_dir s + 1) mod 4\<rparr>)
         else if action = 2 then
           (case py_index dir_vec (agent_dir s) of
              Inl e \<Rightarrow> Raised e s
            | Inr fwd \<Rightarrow>
                (let fx = fst (agent_pos s) + fst fwd; fy = snd (agent_pos s) + snd fwd in
                 if \<not> in_bounds (grid s) fx fy then Done s
                 else if cells (grid s) (fx, fy) = Wall then Done s
                 else Done (s\<lparr>agent_pos := (fx, fy)\<rparr>)))
         else Raised InvalidActionError s)
      of
        Raised e s' \<Rightarrow> Raise e s'
      | Done s' \<Rightarrow>
          (case gen_obs s' of
             Inl e \<Rightarrow> Raise e s'
           | Inr ob \<Rightarrow> Return (ob, 0, False, max_steps s' \<le> step_count s') s'))"

text \<open>
  \<^verbatim>\<open>MazeEnv.step\<close> (lines 358-398). The info key \<^verbatim>\<open>collection_rate\<close>, a floating-point
  quotient, and the mission string are left out; \<^verbatim>\<open>success\<close> is only ever set to true, so
  a false \<open>success\<close> stands for the key being absent.
\<close>

definition step :: "int \<Rightarrow> env \<Rightarrow> step_result returned" where
  "step action s =
     (case base_step action s of
        Raise e s' \<Rightarrow> Raise e s'
      | Return r s1 \<Rightarrow>
          (case grid_get (grid s1) (fst (agent_pos s1)) (snd (agent_pos s1)) of
             Inl e \<Rightarrow> Raise e s1
           | Inr c \<Rightarrow>
               (case (if c = Coin then
                        set_cell (fst (agent_pos s1)) (snd (agent_pos s1)) Empty s1
                      else Done s1) of
                  Raised e s' \<Rightarrow> Raise e s'
                | Done s2 \<Rightarrow>
                    (let s3 = (if c = Coin
                               then s2\<lparr>rewards_collected := rewards_collected s2 + 1\<rparr>
                               else s2);
                         all_collected = (total_rewards s3 \<le> rewards_collected s3) in
                     Return
                       \<lparr>step_obs = fst r,
                        reward = (if c = Coin then 1 else fst (snd r)),
                        terminated = (if all_collected then True else fst (snd (snd r))),
                        truncated = snd (snd (snd r)),
                        step_info = \<lparr>reward_collected = (c = Coin),
                                     info_rewards_collected = rewards_collected s3,
                                     info_total_rewards = total_rewards s3,
                                     success = all_collected\<rparr>\<rparr>
                       s3))))"

section \<open>Notions the properties are stated with\<close>

text \<open>
  The environment's own width and height are those of its grid; \<^verbatim>\<open>_gen_grid\<close> is always
  called with them, so this holds in every state after a reset.
\<close>

definition same_size :: "env \<Rightarrow> bool" where
  "same_size s = (width (grid s) = maze_width s \<and> height (grid s) = maze_height s)"

definition agent_inside :: "env \<Rightarrow> bool" where
  "agent_inside s = in_bounds (grid s) (fst (agent_pos s)) (snd (agent_pos s))"

text \<open>The candidate cell of MoveForward for a direction in 0..3, and whether it blocks.\<close>

definition front_pos :: "env \<Rightarrow> int \<times> int" where
  "front_pos s = (fst (agent_pos s) + fst (dir_vec ! nat (agent_dir s)),
                  snd (agent_pos s) + snd (dir_vec ! nat (agent_dir s)))"

definition blocked :: "env \<Rightarrow> bool" where
  "blocked s = (\<not> in_bounds (grid s) (fst (front_pos s)) (snd (front_pos s))
                \<or> cells (grid s) (front_pos s) = Wall)"

text \<open>
  What the observation window is said to show of a world coordinate: a wall outside the
  grid, nothing on the agent's own cell, the grid's cell anywhere else.
\<close>

definition window_cell :: "env \<Rightarrow> int \<times> int \<Rightarrow> cell" where
  "window_cell s world =
     (if \<not> in_bounds (grid s) (fst world) (snd world) then Wall
      else if world = agent_pos s then Empty
      else cells (grid s) world)"

text \<open>The band one cell inside the outer ring of a w x h grid, its four corners included.\<close>

definition on_band :: "int \<Rightarrow> int \<Rightarrow> int \<times> int \<Rightarrow> bool" where
  "on_band w h p =
     (1 \<le> fst p \<and> fst p \<le> w - 2 \<and> 1 \<le> snd p \<and> snd p \<le> h - 2
      \<and> (fst p = 1 \<or> fst p = w - 2 \<or> snd p = 1 \<or> snd p = h - 2))"

text \<open>
  What generation never changes once the grid is allocated: the grid's dimensions and the
  three configuration lists.
\<close>

definition keeps :: "env \<Rightarrow> env \<Rightarrow> bool" where
  "keeps s s' =
     (width (grid s') = width (grid s) \<and> height (grid s') = height (grid s)
      \<and> walls_config s' = walls_config s \<and> custom_cells s' = custom_cells s
      \<and> clear_areas s' = clear_areas s \<and> reward_type s' = reward_type s)"

text \<open>A coordinate outside \<open>[0,w) x [0,h)\<close>.\<close>

definition outside :: "int \<Rightarrow> int \<Rightarrow> int \<Rightarrow> int \<Rightarrow> bool" where
  "outside w h x y = (\<not> (0 \<le> x \<and> x < w \<and> 0 \<le> y \<and> y < h))"

text \<open>
  The configuration entries whose processing reaches a coordinate outside the grid: a wall
  segment with a position of its range that no gap covers, an override of one of the three
  kinds the code knows, a rectangle with a cell.
\<close>

definition wall_reaches_outside :: "int \<Rightarrow> int \<Rightarrow> wall_cfg \<Rightarrow> bool" where
  "wall_reaches_outside w h c =
     ((wall_type c = ''horizontal''
        \<and> (\<exists>x\<in>set (py_range (start c) (stop c + 1)). \<not> in_gap (gaps c) x \<and> outside w h x (fixed c)))
      \<or> (wall_type c = ''vertical''
        \<and> (\<exists>y\<in>set (py_range (start c) (stop c + 1)). \<not> in_gap (gaps c) y \<and> outside w h (fixed c) y)))"

definition override_reaches_outside :: "int \<Rightarrow> int \<Rightarrow> cell_cfg \<Rightarrow> bool" where
  "override_reaches_outside w h c =
     ((cell_type c = ''wall'' \<or> cell_type c = ''empty'' \<or> cell_type c = ''coin'')
      \<and> outside w h (cell_x c) (cell_y c))"

definition area_reaches_outside :: "int \<Rightarrow> int \<Rightarrow> area \<Rightarrow> bool" where
  "area_reaches_outside w h a =
     (\<exists>x\<in>set (py_range (area_x1 a) (area_x2 a + 1)).
        \<exists>y\<in>set (py_range (area_y1 a) (area_y2 a + 1)). outside w h x y)"

definition reaches_outside :: "int \<Rightarrow> int \<Rightarrow> env \<Rightarrow> bool" where
  "reaches_outside w h s =
     ((\<exists>c\<in>set (walls_config s). wall_reaches_outside w h c)
      \<or> (\<exists>c\<in>set (custom_cells s). override_reaches_outside w h c)
      \<or> (\<exists>a\<in>set (clear_areas s). area_reaches_outside w h a))"

subsection \<open>Concrete environments\<close>

text \<open>A 7 x 7 maze with one interior wall cell; the configurations below vary it.\<close>

definition one_wall :: "wall_cfg list" where
  "one_wall = [\<lparr>wall_type = ''horizontal'', fixed = 3, start = 3, stop = 3, gaps = []\<rparr>]"

text \<open>Outer rewards, and an override that turns the reward cell (1, 1) into a wall.\<close>

definition wall_override_env :: env where
  "wall_override_env =
     MazeEnv 7 3 60 ''outer'' one_wall
       [\<lparr>cell_x = 1, cell_y = 1, cell_type = ''wall''\<rparr>] [] (2, 2) 3"

text \<open>Outer rewards, and an override whose coordinate lies outside the grid.\<close>

definition outside_override_env :: env where
  "outside_override_env =
     MazeEnv 7 3 60 ''outer'' one_wall
       [\<lparr>cell_x = 9, cell_y = 9, cell_type = ''wall''\<rparr>] [] (2, 2) 3"

text \<open>Outer rewards with the agent starting on the reward cell (1, 1), facing up.\<close>

definition coin_start_env :: env where
  "coin_start_env = MazeEnv 7 3 60 ''outer'' one_wall [] [] (1, 1) 3"

text \<open>Outer rewards with the agent starting in the middle of the band's top row.\<close>

definition band_start_env :: env where
  "band_start_env = MazeEnv 7 3 60 ''outer'' one_wall [] [] (3, 1) 3"

text \<open>
  A 5 x 5 maze with inner rewards only and a wall segment that lies on the border: no
  interior cell is next to a wall, so no reward is placed.
\<close>

definition no_reward_env :: env where
  "no_reward_env =
     MazeEnv 5 3 60 ''inner''
       [\<lparr>wall_type = ''horizontal'', fixed = 0, start = 0, stop = 0, gaps = []\<rparr>]
       [] [] (2, 2) 3"

text \<open>An environment as the constructor leaves it: a 5 x 5 grid of empty cells.\<close>

definition fresh_env :: env where
  "fresh_env = MazeEnv 5 3 60 ''outer'' [] [] [] (2, 2) 3"

text \<open>The same with the agent on the top border row, facing up and so off the grid.\<close>

definition edge_env :: env where
  "edge_env = MazeEnv 5 3 60 ''outer'' [] [] [] (2, 0) 3"

section \<open>Lemmas on the observation and on a step\<close>

lemma set_py_range: "set (py_range a b) = {x. a \<le> x \<and> x < b}"
  by (auto simp: py_range_def)

lemma obs_cell_Done:
  assumes "same_size s" "in_bounds v vx vy"
  shows "obs_cell s fwd rgt off vx vy v =
     Done (if window_cell s (world_pos (agent_pos s) fwd rgt off vx vy) = Empty then v
           else v\<lparr>cells := (cells v)((vx, vy) := window_cell s (world_pos (agent_pos s) fwd rgt off vx vy))\<rparr>)"
  using assms
  by (cases "world_pos (agent_pos s) fwd rgt off vx vy")
     (auto simp: obs_cell_def window_cell_def same_size_def grid_get_def grid_set_def in_bounds_def Let_def)

lemma obs_column:
  assumes "same_size s" "0 \<le> vx" "vx < width v" "\<forall>y\<in>set ys. 0 \<le> y \<and> y < height v"
  shows "\<exists>v'. for_each ys (\<lambda>vy. obs_cell s fwd rgt off vx vy) v = Done v'
          \<and> width v' = width v \<and> height v' = height v
          \<and> (\<forall>p. cells v' p =
                (if fst p = vx \<and> snd p \<in> set ys
                    \<and> window_cell s (world_pos (agent_pos s) fwd rgt off vx (snd p)) \<noteq> Empty
                 then window_cell s (world_pos (agent_pos s) fwd rgt off vx (snd p)) else cells v p))"
  using assms
proof (induction ys arbitrary: v)
  case Nil
  then show ?case by simp
next
  case (Cons y ys)
  have b: "in_bounds v vx y" using Cons.prems by (simp add: in_bounds_def)
  let ?v1 = "(if window_cell s (world_pos (agent_pos s) fwd rgt off vx y) = Empty then v
           else v\<lparr>cells := (cells v)((vx, y) := window_cell s (world_pos (agent_pos s) fwd rgt off vx y))\<rparr>)"
  have st: "obs_cell s fwd rgt off vx y v = Done ?v1"
    using obs_cell_Done[OF Cons.prems(1) b] .
  have d: "width ?v1 = width v" "height ?v1 = height v" by simp_all
  from Cons.IH[of ?v1] Cons.prems d
  obtain v' where v': "for_each ys (\<lambda>vy. obs_cell s fwd rgt off vx vy) ?v1 = Done v'"
     "width v' = width v" "height v' = height v"
     "\<forall>p. cells v' p =
                (if fst p = vx \<and> snd p \<in> set ys
                    \<and> window_cell s (world_pos (agent_pos s) fwd rgt off vx (snd p)) \<noteq> Empty
                 then window_cell s (world_pos (agent_pos s) fwd rgt off vx (snd p)) else cells ?v1 p)"
    by auto
  show ?case
    apply (rule exI[of _ v'])
    using v' st by (auto simp del: obs_cell_Done)
qed


lemma obs_rows:
  assumes "same_size s" "\<forall>x\<in>set xs. 0 \<le> x \<and> x < width v" "\<forall>y\<in>set ys. 0 \<le> y \<and> y < height v"
  shows "\<exists>v'. for_each xs (\<lambda>vx. for_each ys (\<lambda>vy. obs_cell s fwd rgt off vx vy)) v = Done v'
          \<and> width v' = width v \<and> height v' = height v
          \<and> (\<forall>p. cells v' p =
                (if fst p \<in> set xs \<and> snd p \<in> set ys
                    \<and> window_cell s (world_pos (agent_pos s) fwd rgt off (fst p) (snd p)) \<noteq> Empty
                 then window_cell s (world_pos (agent_pos s) fwd rgt off (fst p) (snd p)) else cells v p))"
  using assms
proof (induction xs arbitrary: v)
  case Nil
  then show ?case by simp
next
  case (Cons x xs)
  have px: "0 \<le> x" "x < width v" using Cons.prems(2) by simp_all
  from obs_column[OF Cons.prems(1) px Cons.prems(3), of fwd rgt off]
  obtain v1 where v1: "for_each ys (\<lambda>vy. obs_cell s fwd rgt off x vy) v = Done v1"
     and w1: "width v1 = width v" and h1: "height v1 = height v"
     and c1: "\<And>p. cells v1 p =
                (if fst p = x \<and> snd p \<in> set ys
                    \<and> window_cell s (world_pos (agent_pos s) fwd rgt off x (snd p)) \<noteq> Empty
                 then window_cell s (world_pos (agent_pos s) fwd rgt off x (snd p)) else cells v p)"
    by blast
  have p2: "\<forall>x\<in>set xs. 0 \<le> x \<and> x < width v1" using Cons.prems(2) w1 by simp
  have p3: "\<forall>y\<in>set ys. 0 \<le> y \<and> y < height v1" using Cons.prems(3) h1 by simp
  from Cons.IH[OF Cons.prems(1) p2 p3]
  obtain v' where v': "for_each xs (\<lambda>vx. for_each ys (\<lambda>vy. obs_cell s fwd rgt off vx vy)) v1 = Done v'"
     and w': "width v' = width v1" and h': "height v' = height v1"
     and c': "\<And>p. cells v' p =
                (if fst p \<in> set xs \<and> snd p \<in> set ys
                    \<and> window_cell s (world_pos (agent_pos s) fwd rgt off (fst p) (snd p)) \<noteq> Empty
                 then window_cell s (world_pos (agent_pos s) fwd rgt off (fst p) (snd p)) else cells v1 p)"
    by blast
  have run: "for_each (x # xs) (\<lambda>vx. for_each ys (\<lambda>vy. obs_cell s fwd rgt off vx vy)) v = Done v'"
    by (simp add: v1 v')
  have cs: "\<forall>p. cells v' p =
                (if fst p \<in> set (x # xs) \<and> snd p \<in> set ys
                    \<and> window_cell s (world_pos (agent_pos s) fwd rgt off (fst p) (snd p)) \<noteq> Empty
                 then window_cell s (world_pos (agent_pos s) fwd rgt off (fst p) (snd p)) else cells v p)"
  proof
    fix p
    show "cells v' p =
                (if fst p \<in> set (x # xs) \<and> snd p \<in> set ys
                    \<and> window_cell s (world_pos (agent_pos s) fwd rgt off (fst p) (snd p)) \<noteq> Empty
                 then window_cell s (world_pos (agent_pos s) fwd rgt off (fst p) (snd p)) else cells v p)"
      by (cases "fst p = x") (auto simp: c' c1)
  qed
  show ?case using run w' h' w1 h1 cs by (intro exI[of _ v']) simp
qed


lemma py_index_table:
  assumes "0 \<le> d" "d < 4" "length (xs :: 'a list) = 4"
  shows "py_index xs d = Inr (xs ! nat d)"
  using assms by (simp add: py_index_def)

lemma gen_obs_grid_cells:
  assumes "same_size s" "0 \<le> agent_dir s" "agent_dir s < 4"
  shows "\<exists>v. gen_obs_grid s n = Inr v \<and> width v = n \<and> height v = n
         \<and> (\<forall>vx vy. cells v (vx, vy) =
              (if 0 \<le> vx \<and> vx < n \<and> 0 \<le> vy \<and> vy < n
               then window_cell s (world_pos (agent_pos s) (dir_vec ! nat (agent_dir s))
                        (right_vec ! nat (agent_dir s)) (n div 2) vx vy)
               else Empty))"
proof -
  let ?f = "dir_vec ! nat (agent_dir s)" and ?r = "right_vec ! nat (agent_dir s)"
  have f: "py_index dir_vec (agent_dir s) = Inr ?f"
    using assms by (intro py_index_table) (simp_all add: dir_vec_def)
  have r: "py_index right_vec (agent_dir s) = Inr ?r"
    using assms by (intro py_index_table) (simp_all add: right_vec_def)
  have bx: "\<forall>x\<in>set (py_range 0 n). 0 \<le> x \<and> x < width (Grid n n)"
    by (simp add: set_py_range Grid_def)
  have by': "\<forall>y\<in>set (py_range 0 n). 0 \<le> y \<and> y < height (Grid n n)"
    by (simp add: set_py_range Grid_def)
  from obs_rows[OF assms(1) bx by', of ?f ?r "n div 2"]
  obtain v where run: "for_each (py_range 0 n) (\<lambda>vx. for_each (py_range 0 n)
        (\<lambda>vy. obs_cell s ?f ?r (n div 2) vx vy)) (Grid n n) = Done v"
    and w: "width v = width (Grid n n)" and h: "height v = height (Grid n n)"
    and c: "\<And>p. cells v p =
                (if fst p \<in> set (py_range 0 n) \<and> snd p \<in> set (py_range 0 n)
                    \<and> window_cell s (world_pos (agent_pos s) ?f ?r (n div 2) (fst p) (snd p)) \<noteq> Empty
                 then window_cell s (world_pos (agent_pos s) ?f ?r (n div 2) (fst p) (snd p))
                 else cells (Grid n n) p)"
    by blast
  have g: "gen_obs_grid s n = Inr v"
    by (simp add: gen_obs_grid_def f r run)
  have cs: "\<forall>vx vy. cells v (vx, vy) =
              (if 0 \<le> vx \<and> vx < n \<and> 0 \<le> vy \<and> vy < n
               then window_cell s (world_pos (agent_pos s) ?f ?r (n div 2) vx vy)
               else Empty)"
    by (auto simp: c set_py_range Grid_def)
  show ?thesis using g w h cs by (intro exI[of _ v]) (simp add: Grid_def)
qed


lemma gen_obs_Return:
  assumes "same_size s" "0 \<le> agent_dir s" "agent_dir s < 4"
  shows "\<exists>ob. gen_obs s = Inr ob"
  using gen_obs_grid_cells[OF assms, of "agent_view_size s"] by (auto simp: gen_obs_def)

lemma base_step_turn:
  assumes "same_size s" "a = 0 \<or> a = 1"
  shows "\<exists>ob. base_step a s =
           Return (ob, 0, False, max_steps s \<le> step_count s + 1)
             (s\<lparr>step_count := step_count s + 1,
                agent_dir := (agent_dir s + (if a = 0 then 3 else 1)) mod 4\<rparr>)"
proof -
  let ?s' = "s\<lparr>step_count := step_count s + 1,
                agent_dir := (agent_dir s + (if a = 0 then 3 else 1)) mod 4\<rparr>"
  have "same_size ?s'" using assms(1) by (simp add: same_size_def)
  moreover have "0 \<le> agent_dir ?s'" "agent_dir ?s' < 4" by simp_all
  ultimately obtain ob where "gen_obs ?s' = Inr ob" using gen_obs_Return by blast
  then show ?thesis using assms(2) by (auto simp: base_step_def Let_def)
qed

lemma base_step_forward:
  assumes "same_size s" "0 \<le> agent_dir s" "agent_dir s < 4"
  shows "\<exists>ob. base_step 2 s =
           Return (ob, 0, False, max_steps s \<le> step_count s + 1)
             (s\<lparr>step_count := step_count s + 1,
                agent_pos := (if blocked s then agent_pos s else front_pos s)\<rparr>)"
proof -
  let ?s' = "s\<lparr>step_count := step_count s + 1,
                agent_pos := (if blocked s then agent_pos s else front_pos s)\<rparr>"
  have "same_size ?s'" using assms(1) by (simp add: same_size_def)
  moreover have "0 \<le> agent_dir ?s'" "agent_dir ?s' < 4" using assms by simp_all
  ultimately obtain ob where ob: "gen_obs ?s' = Inr ob" using gen_obs_Return by blast
  have f: "py_index dir_vec (agent_dir s) = Inr (dir_vec ! nat (agent_dir s))"
    using assms by (intro py_index_table) (simp_all add: dir_vec_def)
  show ?thesis
  proof (cases "blocked s")
    case True
    then have e: "?s' = s\<lparr>step_count := step_count s + 1\<rparr>" by simp
    show ?thesis using True ob unfolding e
      by (auto simp: base_step_def Let_def f blocked_def front_pos_def)
  next
    case False
    then show ?thesis using ob
      by (auto simp: base_step_def Let_def f blocked_def front_pos_def)
  qed
qed


lemma step_after_base:
  assumes "base_step a s = Return (ob, 0, False, tr) s1" "agent_inside s1"
  shows "\<exists>r s'. step a s = Return r s'
          \<and> step_count s' = step_count s1 \<and> agent_pos s' = agent_pos s1
          \<and> agent_dir s' = agent_dir s1 \<and> total_rewards s' = total_rewards s1
          \<and> terminated r = (total_rewards s' \<le> rewards_collected s')
          \<and> truncated r = tr
          \<and> (if cells (grid s1) (agent_pos s1) = Coin
              then reward r = 1 \<and> rewards_collected s' = rewards_collected s1 + 1
                   \<and> grid s' = (grid s1)\<lparr>cells := (cells (grid s1))(agent_pos s1 := Empty)\<rparr>
              else reward r = 0 \<and> rewards_collected s' = rewards_collected s1
                   \<and> grid s' = grid s1)"
  using assms
  by (auto simp: step_def agent_inside_def grid_get_def set_cell_def grid_set_def Let_def)


lemma step_returns:
  assumes "same_size s" "agent_inside s" "0 \<le> agent_dir s" "agent_dir s < 4"
    and "a = 0 \<or> a = 1 \<or> a = 2"
  shows "\<exists>r s'. step a s = Return r s'
          \<and> step_count s' = step_count s + 1
          \<and> total_rewards s' = total_rewards s
          \<and> terminated r = (total_rewards s' \<le> rewards_collected s')
          \<and> (rewards_collected s' = rewards_collected s
              \<or> rewards_collected s' = rewards_collected s + 1)"
proof -
  consider "a = 0 \<or> a = 1" | "a = 2" using assms(5) by blast
  then show ?thesis
  proof cases
    case 1
    from base_step_turn[OF assms(1) 1] obtain ob where
      b: "base_step a s = Return (ob, 0, False, max_steps s \<le> step_count s + 1)
             (s\<lparr>step_count := step_count s + 1,
                agent_dir := (agent_dir s + (if a = 0 then 3 else 1)) mod 4\<rparr>)" by blast
    have i: "agent_inside (s\<lparr>step_count := step_count s + 1,
                agent_dir := (agent_dir s + (if a = 0 then 3 else 1)) mod 4\<rparr>)"
      using assms(2) by (simp add: agent_inside_def)
    from step_after_base[OF b i] show ?thesis by (auto split: if_splits)
  next
    case 2
    from base_step_forward[OF assms(1,3,4)] obtain ob where
      b: "base_step a s = Return (ob, 0, False, max_steps s \<le> step_count s + 1)
             (s\<lparr>step_count := step_count s + 1,
                agent_pos := (if blocked s then agent_pos s else front_pos s)\<rparr>)"
      using 2 by blast
    have i: "agent_inside (s\<lparr>step_count := step_count s + 1,
                agent_pos := (if blocked s then agent_pos s else front_pos s)\<rparr>)"
      using assms(2) by (simp add: agent_inside_def blocked_def)
    from step_after_base[OF b i] show ?thesis by (auto split: if_splits)
  qed
qed

lemma gen_obs_grid_at:
  assumes "same_size s" "0 \<le> agent_dir s" "agent_dir s < 4"
    and "0 \<le> vx" "vx < n" "0 \<le> vy" "vy < n"
  shows "\<exists>v. gen_obs_grid s n = Inr v
          \<and> cells v (vx, vy) =
             (let world = world_pos (agent_pos s) (dir_vec ! nat (agent_dir s))
                            (right_vec ! nat (agent_dir s)) (n div 2) vx vy
              in if \<not> in_bounds (grid s) (fst world) (snd world) then Wall
                 else if world = agent_pos s then Empty
                 else cells (grid s) world)"
proof -
  from gen_obs_grid_cells[OF assms(1-3), of n] obtain v where
    g: "gen_obs_grid s n = Inr v"
    and c: "\<forall>vx vy. cells v (vx, vy) =
              (if 0 \<le> vx \<and> vx < n \<and> 0 \<le> vy \<and> vy < n
               then window_cell s (world_pos (agent_pos s) (dir_vec ! nat (agent_dir s))
                        (right_vec ! nat (agent_dir s)) (n div 2) vx vy)
               else Empty)"
    by blast
  have "cells v (vx, vy) = window_cell s (world_pos (agent_pos s) (dir_vec ! nat (agent_dir s))
                        (right_vec ! nat (agent_dir s)) (n div 2) vx vy)"
    using c assms(4-7) by simp
  then show ?thesis using g by (simp add: window_cell_def Let_def)
qed

lemma fresh_env_ok:
  "same_size fresh_env" "agent_inside fresh_env" "0 \<le> agent_dir fresh_env" "agent_dir fresh_env < 4"
  by (simp_all add: fresh_env_def MazeEnv_def same_size_def agent_inside_def Grid_def in_bounds_def)

lemma edge_env_ok:
  "same_size edge_env" "agent_inside edge_env" "0 \<le> agent_dir edge_env" "agent_dir edge_env < 4"
  "blocked edge_env"
  by (simp_all add: edge_env_def MazeEnv_def same_size_def agent_inside_def Grid_def in_bounds_def
      blocked_def front_pos_def dir_vec_def)

section \<open>Lemmas on the placement of the outer rewards\<close>

lemma coin_if_none_Done:
  assumes "in_bounds (grid (snd ns)) i j"
  shows "coin_if_none i j ns =
     Done (if cells (grid (snd ns)) (i, j) = Empty
           then (fst ns + 1, (snd ns)\<lparr>grid := (grid (snd ns))\<lparr>cells := (cells (grid (snd ns)))((i, j) := Coin)\<rparr>\<rparr>)
           else ns)"
  using assms by (simp add: coin_if_none_def grid_get_def grid_set_def)

text \<open>A loop of \<open>coin_if_none\<close> along the positions \<open>pos x\<close>, all of them on the grid.\<close>

lemma coin_line:
  assumes "\<forall>x\<in>set xs. in_bounds (grid (snd ns)) (fst (pos x)) (snd (pos x))"
  shows "\<exists>n' g'. for_each xs (\<lambda>x. coin_if_none (fst (pos x)) (snd (pos x))) ns
            = Done (n', (snd ns)\<lparr>grid := g'\<rparr>)
          \<and> width g' = width (grid (snd ns)) \<and> height g' = height (grid (snd ns))
          \<and> (\<forall>p. cells g' p =
                (if p \<in> pos ` set xs \<and> cells (grid (snd ns)) p = Empty then Coin
                 else cells (grid (snd ns)) p))"
  using assms
proof (induction xs arbitrary: ns)
  case Nil
  show ?case by (rule exI[of _ "fst ns"], rule exI[of _ "grid (snd ns)"]) simp
next
  case (Cons x xs)
  let ?n1 = "(if cells (grid (snd ns)) (pos x) = Empty
           then (fst ns + 1, (snd ns)\<lparr>grid := (grid (snd ns))\<lparr>cells := (cells (grid (snd ns)))(pos x := Coin)\<rparr>\<rparr>)
           else ns)"
  have b: "in_bounds (grid (snd ns)) (fst (pos x)) (snd (pos x))" using Cons.prems by simp
  have st: "coin_if_none (fst (pos x)) (snd (pos x)) ns = Done ?n1"
    using coin_if_none_Done[OF b] by simp
  have dims: "width (grid (snd ?n1)) = width (grid (snd ns))"
       "height (grid (snd ?n1)) = height (grid (snd ns))" by simp_all
  have pre: "\<forall>x\<in>set xs. in_bounds (grid (snd ?n1)) (fst (pos x)) (snd (pos x))"
    using Cons.prems dims by (simp add: in_bounds_def)
  from Cons.IH[OF pre] obtain n' g' where
    run: "for_each xs (\<lambda>x. coin_if_none (fst (pos x)) (snd (pos x))) ?n1
            = Done (n', (snd ?n1)\<lparr>grid := g'\<rparr>)"
    and w: "width g' = width (grid (snd ?n1))" and h: "height g' = height (grid (snd ?n1))"
    and c: "\<And>p. cells g' p =
                (if p \<in> pos ` set xs \<and> cells (grid (snd ?n1)) p = Empty then Coin
                 else cells (grid (snd ?n1)) p)"
    by blast
  have e: "(snd ?n1)\<lparr>grid := g'\<rparr> = (snd ns)\<lparr>grid := g'\<rparr>" by simp
  have run': "for_each (x # xs) (\<lambda>x. coin_if_none (fst (pos x)) (snd (pos x))) ns
            = Done (n', (snd ns)\<lparr>grid := g'\<rparr>)"
    using st run e by simp
  have cs: "\<forall>p. cells g' p =
                (if p \<in> pos ` set (x # xs) \<and> cells (grid (snd ns)) p = Empty then Coin
                 else cells (grid (snd ns)) p)"
  proof
    fix p
    show "cells g' p =
                (if p \<in> pos ` set (x # xs) \<and> cells (grid (snd ns)) p = Empty then Coin
                 else cells (grid (snd ns)) p)"
      by (cases "p = pos x") (auto simp: c)
  qed
  have w': "width g' = width (grid (snd ns))" using w dims(1) by simp
  have h': "height g' = height (grid (snd ns))" using h dims(2) by simp
  show ?case using run' w' h' cs by blast
qed

lemma coin_line_env:
  assumes "\<forall>x\<in>set xs. in_bounds (grid s) (fst (pos x)) (snd (pos x))"
  shows "\<exists>n' g'. for_each xs (\<lambda>x. coin_if_none (fst (pos x)) (snd (pos x))) (n, s)
            = Done (n', s\<lparr>grid := g'\<rparr>)
          \<and> width g' = width (grid s) \<and> height g' = height (grid s)
          \<and> (\<forall>p. cells g' p =
                (if p \<in> pos ` set xs \<and> cells (grid s) p = Empty then Coin
                 else cells (grid s) p))"
proof -
  have "\<forall>x\<in>set xs. in_bounds (grid (snd (n, s))) (fst (pos x)) (snd (pos x))"
    using assms by simp
  from coin_line[OF this] show ?thesis unfolding snd_conv .
qed

lemma place_outer_cells:
  assumes "width (grid s) = w" "height (grid s) = h" "3 \<le> w" "3 \<le> h"
  shows "\<exists>n g'. place_outer_boundary_rewards w h s = Done (n, s\<lparr>grid := g'\<rparr>)
          \<and> width g' = w \<and> height g' = h
          \<and> (\<forall>p. cells g' p =
                (if on_band w h p \<and> cells (grid s) p = Empty then Coin else cells (grid s) p))"
proof -
  let ?top = "\<lambda>i::int. (i, 1::int)" and ?bot = "\<lambda>i::int. (i, h - 2)"
  let ?lft = "\<lambda>j::int. (1::int, j)" and ?rgt = "\<lambda>j::int. (w - 2, j)"
  have b1: "\<forall>x\<in>set (py_range 1 (w - 1)). in_bounds (grid s) (fst (?top x)) (snd (?top x))"
    using assms by (simp add: set_py_range in_bounds_def)
  from coin_line_env[OF b1, of 0] obtain n1 g1 where
    r1: "for_each (py_range 1 (w - 1)) (\<lambda>i. coin_if_none i 1) (0, s) = Done (n1, s\<lparr>grid := g1\<rparr>)"
    and d1: "width g1 = w" "height g1 = h"
    and c1: "\<And>p. cells g1 p =
                (if p \<in> ?top ` set (py_range 1 (w - 1)) \<and> cells (grid s) p = Empty then Coin
                 else cells (grid s) p)"
    using assms(1,2) by auto
  let ?s1 = "s\<lparr>grid := g1\<rparr>"
  have b2: "\<forall>x\<in>set (py_range 1 (w - 1)). in_bounds (grid ?s1) (fst (?bot x)) (snd (?bot x))"
    using assms d1 by (simp add: set_py_range in_bounds_def)
  from coin_line_env[OF b2, of n1] obtain n2 g2 where
    r2: "for_each (py_range 1 (w - 1)) (\<lambda>i. coin_if_none i (h - 2)) (n1, ?s1) = Done (n2, s\<lparr>grid := g2\<rparr>)"
    and d2: "width g2 = w" "height g2 = h"
    and c2: "\<And>p. cells g2 p =
                (if p \<in> ?bot ` set (py_range 1 (w - 1)) \<and> cells g1 p = Empty then Coin
                 else cells g1 p)"
    using d1 by auto
  let ?s2 = "s\<lparr>grid := g2\<rparr>"
  have b3: "\<forall>x\<in>set (py_range 2 (h - 2)). in_bounds (grid ?s2) (fst (?lft x)) (snd (?lft x))"
    using assms d2 by (simp add: set_py_range in_bounds_def)
  from coin_line_env[OF b3, of n2] obtain n3 g3 where
    r3: "for_each (py_range 2 (h - 2)) (\<lambda>j. coin_if_none 1 j) (n2, ?s2) = Done (n3, s\<lparr>grid := g3\<rparr>)"
    and d3: "width g3 = w" "height g3 = h"
    and c3: "\<And>p. cells g3 p =
                (if p \<in> ?lft ` set (py_range 2 (h - 2)) \<and> cells g2 p = Empty then Coin
                 else cells g2 p)"
    using d2 by auto
  let ?s3 = "s\<lparr>grid := g3\<rparr>"
  have b4: "\<forall>x\<in>set (py_range 2 (h - 2)). in_bounds (grid ?s3) (fst (?rgt x)) (snd (?rgt x))"
    using assms d3 by (simp add: set_py_range in_bounds_def)
  from coin_line_env[OF b4, of n3] obtain n4 g4 where
    r4: "for_each (py_range 2 (h - 2)) (\<lambda>j. coin_if_none (w - 2) j) (n3, ?s3) = Done (n4, s\<lparr>grid := g4\<rparr>)"
    and d4: "width g4 = w" "height g4 = h"
    and c4: "\<And>p. cells g4 p =
                (if p \<in> ?rgt ` set (py_range 2 (h - 2)) \<and> cells g3 p = Empty then Coin
                 else cells g3 p)"
    using d3 by auto
  have run: "place_outer_boundary_rewards w h s = Done (n4, s\<lparr>grid := g4\<rparr>)"
    by (simp add: place_outer_boundary_rewards_def and_then_def r1 r2 r3 r4)
  have band: "\<And>p. on_band w h p =
      (p \<in> ?top ` set (py_range 1 (w - 1)) \<or> p \<in> ?bot ` set (py_range 1 (w - 1))
       \<or> p \<in> ?lft ` set (py_range 2 (h - 2)) \<or> p \<in> ?rgt ` set (py_range 2 (h - 2)))"
    using assms(3,4) by (auto simp: on_band_def set_py_range image_iff)
  have cs: "\<forall>p. cells g4 p =
                (if on_band w h p \<and> cells (grid s) p = Empty then Coin else cells (grid s) p)"
  proof
    fix p
    show "cells g4 p =
                (if on_band w h p \<and> cells (grid s) p = Empty then Coin else cells (grid s) p)"
      unfolding band c4 c3 c2 c1 by auto
  qed
  show ?thesis using run d4 cs by blast
qed

section \<open>Lemmas on generation that reaches outside the grid\<close>

lemma keeps_refl: "keeps s s"
  by (simp add: keeps_def)

lemma keeps_trans: "keeps s s1 \<Longrightarrow> keeps s1 s2 \<Longrightarrow> keeps s s2"
  by (simp add: keeps_def)

lemma and_then_Done:
  "and_then r f = Done s' \<Longrightarrow> \<exists>s1. r = Done s1 \<and> f s1 = Done s'"
  by (cases r) (simp_all add: and_then_def)

lemma for_each_keeps:
  assumes "\<And>x s s'. body x s = Done s' \<Longrightarrow> R s s'"
    and "\<And>s. R s s" and "\<And>s s1 s2. R s s1 \<Longrightarrow> R s1 s2 \<Longrightarrow> R s s2"
    and "for_each xs body s = Done s'"
  shows "R s s'"
  using assms(4)
proof (induction xs arbitrary: s)
  case Nil
  then show ?case using assms(2) by simp
next
  case (Cons x xs)
  then obtain s1 where b: "body x s = Done s1" and r: "for_each xs body s1 = Done s'"
    by (auto split: outcome.splits)
  from assms(1)[OF b] Cons.IH[OF r] show ?case using assms(3) by blast
qed

lemma for_each_raises:
  assumes "x \<in> set xs"
    and "\<And>s. P s \<Longrightarrow> \<exists>e s'. body x s = Raised e s'"
    and "\<And>y s s'. P s \<Longrightarrow> body y s = Done s' \<Longrightarrow> P s'"
    and "P s"
  shows "\<exists>e s'. for_each xs body s = Raised e s'"
  using assms(1,4)
proof (induction xs arbitrary: s)
  case Nil
  then show ?case by simp
next
  case (Cons y ys)
  show ?case
  proof (cases "body y s")
    case (Raised e s1)
    then show ?thesis by simp
  next
    case (Done s1)
    have "x \<noteq> y" using Done assms(2)[OF Cons.prems(2)] by auto
    then have m: "x \<in> set ys" using Cons.prems(1) by simp
    have p: "P s1" using assms(3)[OF Cons.prems(2) Done] .
    from Cons.IH[OF m p] show ?thesis using Done by simp
  qed
qed

lemma set_cell_keeps: "set_cell i j v s = Done s' \<Longrightarrow> keeps s s'"
  by (auto simp: set_cell_def grid_set_def keeps_def split: if_splits)

lemma wall_if_none_keeps: "wall_if_none i j s = Done s' \<Longrightarrow> keeps s s'"
  by (auto simp: wall_if_none_def grid_get_def keeps_refl dest: set_cell_keeps split: if_splits)

lemma wall_if_none_raises:
  "outside (width (grid s)) (height (grid s)) i j \<Longrightarrow> wall_if_none i j s = Raised BoundsError s"
  by (auto simp: wall_if_none_def grid_get_def outside_def in_bounds_def)


lemma and_then_keeps:
  assumes "and_then r f = Done s'" "\<And>s1. r = Done s1 \<Longrightarrow> keeps s s1"
    and "\<And>s1 s2. f s1 = Done s2 \<Longrightarrow> keeps s1 s2"
  shows "keeps s s'"
proof -
  from and_then_Done[OF assms(1)] obtain s1 where "r = Done s1" "f s1 = Done s'" by blast
  then show ?thesis using assms(2,3) keeps_trans by blast
qed

lemma for_each_env_keeps:
  assumes "\<And>x s s'. body x s = Done s' \<Longrightarrow> keeps s s'"
    and "for_each xs body s = Done s'"
  shows "keeps s s'"
proof (rule for_each_keeps[where R = keeps and body = body and xs = xs])
  show "for_each xs body s = Done s'" by (rule assms(2))
qed (auto intro: assms(1) keeps_refl keeps_trans)

subsection \<open>Failing walls\<close>

lemma add_wall_from_config_keeps:
  "add_wall_from_config c s = Done s' \<Longrightarrow> keeps s s'"
  unfolding add_wall_from_config_def
  by (auto split: if_splits intro: keeps_refl
      elim!: for_each_env_keeps[rotated] dest: wall_if_none_keeps)

lemma add_wall_from_config_raises:
  assumes "wall_reaches_outside (width (grid s)) (height (grid s)) c"
  shows "\<exists>e s'. add_wall_from_config c s = Raised e s'"
proof -
  let ?P = "\<lambda>t::env. width (grid t) = width (grid s) \<and> height (grid t) = height (grid s)"
  consider
    (hor) x where "wall_type c = ''horizontal''" "x \<in> set (py_range (start c) (stop c + 1))"
       "\<not> in_gap (gaps c) x" "outside (width (grid s)) (height (grid s)) x (fixed c)"
  | (ver) y where "wall_type c = ''vertical''" "y \<in> set (py_range (start c) (stop c + 1))"
       "\<not> in_gap (gaps c) y" "outside (width (grid s)) (height (grid s)) (fixed c) y"
    using assms unfolding wall_reaches_outside_def by blast
  then show ?thesis
  proof cases
    case hor
    have "\<exists>e s'. for_each (py_range (start c) (stop c + 1))
          (\<lambda>x s. if \<not> in_gap (gaps c) x then wall_if_none x (fixed c) s else Done s) s = Raised e s'"
    proof (rule for_each_raises[where P = ?P, OF hor(2)])
      fix t :: env assume "?P t"
      then show "\<exists>e s'. (if \<not> in_gap (gaps c) x then wall_if_none x (fixed c) t else Done t) = Raised e s'"
        using hor(3,4) wall_if_none_raises[of t x "fixed c"] by simp
    next
      fix y and t t' :: env assume "?P t" "(if \<not> in_gap (gaps c) y then wall_if_none y (fixed c) t else Done t) = Done t'"
      then show "?P t'" by (auto split: if_splits dest!: wall_if_none_keeps simp: keeps_def)
    qed simp
    then show ?thesis using hor(1) by (simp add: add_wall_from_config_def)
  next
    case ver
    have "\<exists>e s'. for_each (py_range (start c) (stop c + 1))
          (\<lambda>y s. if \<not> in_gap (gaps c) y then wall_if_none (fixed c) y s else Done s) s = Raised e s'"
    proof (rule for_each_raises[where P = ?P, OF ver(2)])
      fix t :: env assume "?P t"
      then show "\<exists>e s'. (if \<not> in_gap (gaps c) y then wall_if_none (fixed c) y t else Done t) = Raised e s'"
        using ver(3,4) wall_if_none_raises[of t "fixed c" y] by simp
    next
      fix z and t t' :: env assume "?P t" "(if \<not> in_gap (gaps c) z then wall_if_none (fixed c) z t else Done t) = Done t'"
      then show "?P t'" by (auto split: if_splits dest!: wall_if_none_keeps simp: keeps_def)
    qed simp
    then show ?thesis using ver(1) by (simp add: add_wall_from_config_def)
  qed
qed


lemma outer_boundary_keeps: "outer_boundary w h s = Done s' \<Longrightarrow> keeps s s'"
  unfolding outer_boundary_def
  by (erule and_then_keeps)
     (auto elim!: for_each_env_keeps[rotated] and_then_keeps dest: set_cell_keeps)

lemma add_default_internal_walls_keeps:
  "add_default_internal_walls w h s = Done s' \<Longrightarrow> keeps s s'"
  unfolding add_default_internal_walls_def Let_def
  apply (erule and_then_keeps)+
  by (auto elim!: for_each_env_keeps[rotated] and_then_keeps dest: set_cell_keeps
      split: if_splits intro: keeps_refl)

lemma add_internal_walls_keeps: "add_internal_walls w h s = Done s' \<Longrightarrow> keeps s s'"
  unfolding add_internal_walls_def
  by (auto split: if_splits dest: add_default_internal_walls_keeps
      elim!: for_each_env_keeps[rotated] dest: add_wall_from_config_keeps)

lemma add_internal_walls_raises:
  assumes "c \<in> set (walls_config s)" "wall_reaches_outside (width (grid s)) (height (grid s)) c"
  shows "\<exists>e s'. add_internal_walls w h s = Raised e s'"
proof -
  let ?P = "\<lambda>t::env. width (grid t) = width (grid s) \<and> height (grid t) = height (grid s)"
  have "\<exists>e s'. for_each (walls_config s) add_wall_from_config s = Raised e s'"
  proof (rule for_each_raises[where P = ?P, OF assms(1)])
    fix t :: env assume "?P t"
    then show "\<exists>e s'. add_wall_from_config c t = Raised e s'"
      using add_wall_from_config_raises[of t c] assms(2) by simp
  next
    fix y and t t' :: env assume "?P t" "add_wall_from_config y t = Done t'"
    then show "?P t'" by (auto dest!: add_wall_from_config_keeps simp: keeps_def)
  qed simp
  moreover have "walls_config s \<noteq> []" using assms(1) by auto
  ultimately show ?thesis by (simp add: add_internal_walls_def)
qed


subsection \<open>The reward placement keeps the frame\<close>

lemma for_each_pair_keeps:
  assumes "\<And>x ns ns'. body x ns = Done ns' \<Longrightarrow> keeps (snd ns) (snd ns')"
    and "for_each xs body ns = Done ns'"
  shows "keeps (snd ns) (snd ns')"
proof (rule for_each_keeps[where R = "\<lambda>a b. keeps (snd a) (snd b)" and body = body and xs = xs])
  show "for_each xs body ns = Done ns'" by (rule assms(2))
qed (auto intro: assms(1) keeps_refl keeps_trans)

lemma and_then_pair_keeps:
  assumes "and_then r f = Done ns'" "\<And>n1. r = Done n1 \<Longrightarrow> keeps s (snd n1)"
    and "\<And>n1 n2. f n1 = Done n2 \<Longrightarrow> keeps (snd n1) (snd n2)"
  shows "keeps s (snd ns')"
proof -
  from and_then_Done[OF assms(1)] obtain n1 where "r = Done n1" "f n1 = Done ns'" by blast
  then show ?thesis using assms(2,3) keeps_trans by blast
qed

lemma coin_if_none_keeps: "coin_if_none i j ns = Done ns' \<Longrightarrow> keeps (snd ns) (snd ns')"
  by (auto simp: coin_if_none_def grid_get_def grid_set_def keeps_def split: if_splits)

lemma inner_coin_keeps: "inner_coin i j ns = Done ns' \<Longrightarrow> keeps (snd ns) (snd ns')"
  by (auto simp: inner_coin_def grid_get_def grid_set_def keeps_def split: if_splits sum.splits)

lemma place_outer_boundary_rewards_keeps:
  "place_outer_boundary_rewards w h s = Done r \<Longrightarrow> keeps s (snd r)"
  unfolding place_outer_boundary_rewards_def
  apply (erule and_then_pair_keeps)+
  by (auto dest: for_each_pair_keeps[rotated] coin_if_none_keeps)

lemma place_inner_boundary_rewards_keeps:
  "place_inner_boundary_rewards w h s = Done r \<Longrightarrow> keeps s (snd r)"
proof -
  assume a: "place_inner_boundary_rewards w h s = Done r"
  have "keeps (snd (0::int, s)) (snd r)"
  proof (rule for_each_pair_keeps)
    show "for_each (py_range 2 (w - 2))
       (\<lambda>i. for_each (py_range 2 (h - 2)) (\<lambda>j. inner_coin i j)) (0, s) = Done r"
      using a by (simp add: place_inner_boundary_rewards_def)
  next
    fix x and ns ns' :: "int \<times> env"
    assume "for_each (py_range 2 (h - 2)) (inner_coin x) ns = Done ns'"
    then show "keeps (snd ns) (snd ns')"
      by (rule for_each_pair_keeps[rotated]) (rule inner_coin_keeps)
  qed
  then show ?thesis by simp
qed

lemma add_placed_keeps:
  assumes "add_placed place ns = Done r" "\<And>s r. place s = Done r \<Longrightarrow> keeps s (snd r)"
  shows "keeps (snd ns) (snd r)"
  using assms by (auto simp: add_placed_def split: outcome.splits)

lemma place_rewards_keeps: "place_rewards w h s = Done s' \<Longrightarrow> keeps s s'"
proof -
  assume a: "place_rewards w h s = Done s'"
  let ?o = "add_placed (place_outer_boundary_rewards w h)"
  let ?i = "add_placed (place_inner_boundary_rewards w h)"
  have o: "\<And>ns r. ?o ns = Done r \<Longrightarrow> keeps (snd ns) (snd r)"
    by (erule add_placed_keeps) (rule place_outer_boundary_rewards_keeps)
  have i: "\<And>ns r. ?i ns = Done r \<Longrightarrow> keeps (snd ns) (snd r)"
    by (erule add_placed_keeps) (rule place_inner_boundary_rewards_keeps)
  have b: "\<And>r. and_then (?o (0, s)) ?i = Done r \<Longrightarrow> keeps s (snd r)"
    using o[of "(0, s)"] i by (auto dest!: and_then_Done intro: keeps_trans)
  from a obtain r where r: "s' = (snd r)\<lparr>total_rewards := fst r\<rparr>" and k: "keeps s (snd r)"
    unfolding place_rewards_def
    using o[of "(0, s)"] i[of "(0, s)"] b
    by (auto split: if_splits outcome.splits)
  show ?thesis using k unfolding r by (simp add: keeps_def)
qed


subsection \<open>Failing overrides and cleared areas\<close>

lemma apply_custom_cell_keeps: "apply_custom_cell c s = Done s' \<Longrightarrow> keeps s s'"
  by (auto simp: apply_custom_cell_def Let_def set_cell_def grid_get_def grid_set_def keeps_def
      split: if_splits)

lemma apply_custom_cell_raises:
  assumes "override_reaches_outside (width (grid s)) (height (grid s)) c"
  shows "\<exists>e s'. apply_custom_cell c s = Raised e s'"
  using assms
  by (auto simp: override_reaches_outside_def outside_def apply_custom_cell_def Let_def
      set_cell_def grid_get_def grid_set_def in_bounds_def)

lemma apply_custom_cells_keeps: "apply_custom_cells s = Done s' \<Longrightarrow> keeps s s'"
  unfolding apply_custom_cells_def
  by (erule for_each_env_keeps[rotated]) (rule apply_custom_cell_keeps)

lemma apply_custom_cells_raises:
  assumes "c \<in> set (custom_cells s)" "override_reaches_outside (width (grid s)) (height (grid s)) c"
  shows "\<exists>e s'. apply_custom_cells s = Raised e s'"
proof -
  let ?P = "\<lambda>t::env. width (grid t) = width (grid s) \<and> height (grid t) = height (grid s)"
  have "\<exists>e s'. for_each (custom_cells s) apply_custom_cell s = Raised e s'"
  proof (rule for_each_raises[where P = ?P, OF assms(1)])
    fix t :: env assume "?P t"
    then show "\<exists>e s'. apply_custom_cell c t = Raised e s'"
      using apply_custom_cell_raises[of t c] assms(2) by simp
  next
    fix y and t t' :: env assume "?P t" "apply_custom_cell y t = Done t'"
    then show "?P t'" by (auto dest!: apply_custom_cell_keeps simp: keeps_def)
  qed simp
  then show ?thesis by (simp add: apply_custom_cells_def)
qed

lemma clear_cell_keeps: "clear_cell x y s = Done s' \<Longrightarrow> keeps s s'"
  by (auto simp: clear_cell_def set_cell_def grid_get_def grid_set_def keeps_def split: if_splits)

lemma clear_cell_raises:
  "outside (width (grid s)) (height (grid s)) x y \<Longrightarrow> \<exists>e s'. clear_cell x y s = Raised e s'"
  by (auto simp: clear_cell_def grid_get_def outside_def in_bounds_def)

lemma clear_rectangle_keeps: "clear_rectangle x1 y1 x2 y2 s = Done s' \<Longrightarrow> keeps s s'"
  unfolding clear_rectangle_def
  by (erule for_each_env_keeps[rotated], erule for_each_env_keeps[rotated])
     (rule clear_cell_keeps)

lemma clear_rectangle_raises:
  assumes "x \<in> set (py_range x1 (x2 + 1))" "y \<in> set (py_range y1 (y2 + 1))"
    and "outside (width (grid s)) (height (grid s)) x y"
  shows "\<exists>e s'. clear_rectangle x1 y1 x2 y2 s = Raised e s'"
proof -
  let ?P = "\<lambda>t::env. width (grid t) = width (grid s) \<and> height (grid t) = height (grid s)"
  have col: "\<And>t. ?P t \<Longrightarrow> \<exists>e s'. for_each (py_range y1 (y2 + 1)) (\<lambda>y. clear_cell x y) t = Raised e s'"
  proof -
    fix t :: env assume pt: "?P t"
    show "\<exists>e s'. for_each (py_range y1 (y2 + 1)) (\<lambda>y. clear_cell x y) t = Raised e s'"
    proof (rule for_each_raises[where P = ?P, OF assms(2)])
      fix u :: env assume "?P u"
      then show "\<exists>e s'. clear_cell x y u = Raised e s'"
        using clear_cell_raises[of u x y] assms(3) by simp
    next
      fix z and u u' :: env assume "?P u" "clear_cell x z u = Done u'"
      then show "?P u'" by (auto dest!: clear_cell_keeps simp: keeps_def)
    qed (rule pt)
  qed
  have "\<exists>e s'. for_each (py_range x1 (x2 + 1))
          (\<lambda>x. for_each (py_range y1 (y2 + 1)) (\<lambda>y. clear_cell x y)) s = Raised e s'"
  proof (rule for_each_raises[where P = ?P, OF assms(1)])
    fix t :: env assume "?P t"
    then show "\<exists>e s'. for_each (py_range y1 (y2 + 1)) (clear_cell x) t = Raised e s'"
      using col by simp
  next
    fix z and t t' :: env
    assume p: "?P t" and d: "for_each (py_range y1 (y2 + 1)) (clear_cell z) t = Done t'"
    have "keeps t t'" using d by (rule for_each_env_keeps[rotated]) (rule clear_cell_keeps)
    then show "?P t'" using p by (simp add: keeps_def)
  qed simp
  then show ?thesis by (simp add: clear_rectangle_def)
qed

lemma apply_clear_areas_raises:
  assumes "a \<in> set (clear_areas s)" "area_reaches_outside (width (grid s)) (height (grid s)) a"
  shows "\<exists>e s'. apply_clear_areas s = Raised e s'"
proof -
  let ?P = "\<lambda>t::env. width (grid t) = width (grid s) \<and> height (grid t) = height (grid s)"
  from assms(2) obtain x y where
    xy: "x \<in> set (py_range (area_x1 a) (area_x2 a + 1))" "y \<in> set (py_range (area_y1 a) (area_y2 a + 1))"
        "outside (width (grid s)) (height (grid s)) x y"
    unfolding area_reaches_outside_def by blast
  have "\<exists>e s'. for_each (clear_areas s)
       (\<lambda>a. clear_rectangle (area_x1 a) (area_y1 a) (area_x2 a) (area_y2 a)) s = Raised e s'"
  proof (rule for_each_raises[where P = ?P, OF assms(1)])
    fix t :: env assume "?P t"
    then show "\<exists>e s'. clear_rectangle (area_x1 a) (area_y1 a) (area_x2 a) (area_y2 a) t = Raised e s'"
      using clear_rectangle_raises[OF xy(1,2), of t] xy(3) by simp
  next
    fix b and t t' :: env
    assume "?P t" "clear_rectangle (area_x1 b) (area_y1 b) (area_x2 b) (area_y2 b) t = Done t'"
    then show "?P t'" by (auto dest!: clear_rectangle_keeps simp: keeps_def)
  qed simp
  then show ?thesis by (simp add: apply_clear_areas_def)
qed

subsection \<open>Failing generation\<close>

lemma and_then_raises:
  assumes "\<And>s1. r = Done s1 \<Longrightarrow> \<exists>e s'. f s1 = Raised e s'"
  shows "\<exists>e s'. and_then r f = Raised e s'"
  using assms by (cases r) (simp_all add: and_then_def)

lemma and_then_raises_first:
  assumes "\<exists>e s'. r = Raised e s'"
  shows "\<exists>e s'. and_then r f = Raised e s'"
  using assms by (auto simp: and_then_def)

lemma gen_grid_raises:
  assumes "reaches_outside w h s"
  shows "\<exists>e s'. gen_grid w h s = Raised e s'"
proof -
  let ?s0 = "s\<lparr>grid := Grid w h\<rparr>"
  let ?K = "\<lambda>t::env. keeps ?s0 t"
  have dims: "\<And>t. ?K t \<Longrightarrow> width (grid t) = w \<and> height (grid t) = h
       \<and> walls_config t = walls_config s \<and> custom_cells t = custom_cells s
       \<and> clear_areas t = clear_areas s"
    by (simp add: keeps_def Grid_def)
  let ?A = "outer_boundary w h ?s0"
  let ?B = "and_then ?A (add_internal_walls w h)"
  let ?C = "and_then ?B (\<lambda>s. Done (s\<lparr>agent_pos := agent_start_pos s, agent_dir := agent_start_dir s\<rparr>))"
  let ?D = "and_then ?C (place_rewards w h)"
  let ?E = "and_then ?D apply_custom_cells"
  have g: "gen_grid w h s = and_then ?E apply_clear_areas" by (simp add: gen_grid_def)
  have kA: "\<And>t. ?A = Done t \<Longrightarrow> ?K t" by (rule outer_boundary_keeps)
  have kB: "\<And>t. ?B = Done t \<Longrightarrow> ?K t"
    by (erule and_then_keeps) (auto dest: kA add_internal_walls_keeps)
  have kC: "\<And>t. ?C = Done t \<Longrightarrow> ?K t"
    by (erule and_then_keeps) (auto dest: kB simp: keeps_def)
  have kD: "\<And>t. ?D = Done t \<Longrightarrow> ?K t"
    by (erule and_then_keeps) (auto dest: kC place_rewards_keeps)
  have kE: "\<And>t. ?E = Done t \<Longrightarrow> ?K t"
    by (erule and_then_keeps) (auto dest: kD apply_custom_cells_keeps)
  consider
    (wall) c where "c \<in> set (walls_config s)" "wall_reaches_outside w h c"
  | (cell) c where "c \<in> set (custom_cells s)" "override_reaches_outside w h c"
  | (area) a where "a \<in> set (clear_areas s)" "area_reaches_outside w h a"
    using assms unfolding reaches_outside_def by blast
  then show ?thesis
  proof cases
    case wall
    have "\<exists>e s'. ?B = Raised e s'"
    proof (rule and_then_raises)
      fix t assume "?A = Done t"
      from dims[OF kA[OF this]] show "\<exists>e s'. add_internal_walls w h t = Raised e s'"
        using add_internal_walls_raises[of c t w h] wall by simp
    qed
    then have "\<exists>e s'. ?C = Raised e s'" by (rule and_then_raises_first)
    then have "\<exists>e s'. ?D = Raised e s'" by (rule and_then_raises_first)
    then have "\<exists>e s'. ?E = Raised e s'" by (rule and_then_raises_first)
    then show ?thesis unfolding g by (rule and_then_raises_first)
  next
    case cell
    have "\<exists>e s'. ?E = Raised e s'"
    proof (rule and_then_raises)
      fix t assume "?D = Done t"
      from dims[OF kD[OF this]] show "\<exists>e s'. apply_custom_cells t = Raised e s'"
        using apply_custom_cells_raises[of c t] cell by simp
    qed
    then show ?thesis unfolding g by (rule and_then_raises_first)
  next
    case area
    show ?thesis unfolding g
    proof (rule and_then_raises)
      fix t assume "?E = Done t"
      from dims[OF kE[OF this]] show "\<exists>e s'. apply_clear_areas t = Raised e s'"
        using apply_clear_areas_raises[of a t] area by simp
    qed
  qed
qed

section \<open>Properties of the maze environment\<close>

text \<open>
  C1. Claimed: after reset, \<open>total_rewards\<close> is the number of Coin cells of the grid, also
  when an override of kind wall lands on a cell that holds a reward. In the source the
  wall branch of \<^verbatim>\<open>_apply_custom_cells\<close> sets the cell and leaves the counter, while the
  empty branch and \<^verbatim>\<open>clear_rectangle\<close> decrement it when they remove a coin. On the 7 x 7
  maze with outer rewards and the override of (1, 1) to a wall, reset leaves
  \<open>total_rewards\<close> at 16 over a grid of 15 coins.
\<close>

theorem wall_override_miscounts:
  "(case reset wall_override_env of
      Return r s \<Rightarrow> total_rewards s = 16 \<and> count_coins (grid s) = 15
                    \<and> cells (grid s) (1, 1) = Wall
    | Raise e s \<Rightarrow> False)"
  by code_simp

text \<open>
  C2, as amended. A step returns \<open>terminated\<close> true exactly when, after it,
  \<open>rewards_collected\<close> has reached \<open>total_rewards\<close>. While the count was still below the
  total before the step, that is exactly the step on which it becomes equal to the total,
  never an earlier one; once the count is at the total (which with \<open>total_rewards = 0\<close> is
  already so at reset) every step returns \<open>terminated\<close> true.
\<close>

theorem step_terminated_iff_collected:
  assumes "same_size s" "agent_inside s" "0 \<le> agent_dir s" "agent_dir s < 4"
    and "a = 0 \<or> a = 1 \<or> a = 2"
  shows "\<exists>r s'. step a s = Return r s'
          \<and> total_rewards s' = total_rewards s
          \<and> terminated r = (total_rewards s \<le> rewards_collected s')
          \<and> (if rewards_collected s < total_rewards s
              then terminated r = (rewards_collected s' = total_rewards s)
              else terminated r)"
proof -
  from step_returns[OF assms] obtain r s' where
    h: "step a s = Return r s'" "total_rewards s' = total_rewards s"
       "terminated r = (total_rewards s' \<le> rewards_collected s')"
       "rewards_collected s' = rewards_collected s \<or> rewards_collected s' = rewards_collected s + 1"
    by blast
  have "terminated r = (total_rewards s \<le> rewards_collected s')" using h(2,3) by simp
  moreover have "if rewards_collected s < total_rewards s
              then terminated r = (rewards_collected s' = total_rewards s)
              else terminated r"
    using h(2,3,4) by auto
  ultimately show ?thesis using h(1,2) by blast
qed

theorem step_terminated_iff_collected_witness:
  "\<exists>r s'. step 2 fresh_env = Return r s' \<and> terminated r"
proof -
  have t: "total_rewards fresh_env = 0" "rewards_collected fresh_env = 0"
    by (simp_all add: fresh_env_def MazeEnv_def)
  from step_terminated_iff_collected[OF fresh_env_ok, of 2]
  show ?thesis by (auto simp: t)
qed

text \<open>
  The claim as stated, with \<open>terminated\<close> never true when \<open>total_rewards\<close> is 0, fails:
  in the maze without any reward the first step after reset already terminates.
\<close>

theorem terminated_without_rewards:
  "(case reset no_reward_env of
      Return r0 s0 \<Rightarrow>
        total_rewards s0 = 0 \<and> rewards_collected s0 = 0 \<and>
        (case step 0 s0 of Return r s' \<Rightarrow> terminated r | Raise e s' \<Rightarrow> False)
    | Raise e s \<Rightarrow> False)"
  by code_simp

text \<open>
  C3, as amended. Whenever the configuration holds a wall segment with a position that
  no gap covers, an override of kind wall, empty or coin, or a rectangle with a cell
  outside \<open>[0,w) x [0,h)\<close>, generation fails with an error. Nothing checks the
  configuration beforehand: the error comes from the grid access that reaches the
  coordinate, and what generation has built until then stays in the grid.
\<close>

theorem gen_grid_fails_outside:
  assumes "reaches_outside w h s"
  shows "\<exists>e s'. gen_grid w h s = Raised e s'"
  using assms by (rule gen_grid_raises)

theorem gen_grid_fails_outside_witness:
  "\<exists>e s'. gen_grid 7 7 outside_override_env = Raised e s'"
proof -
  have "override_reaches_outside 7 7 \<lparr>cell_x = 9, cell_y = 9, cell_type = ''wall''\<rparr>"
    by (simp add: override_reaches_outside_def outside_def)
  then have "reaches_outside 7 7 outside_override_env"
    by (simp add: reaches_outside_def outside_override_env_def MazeEnv_def)
  then show ?thesis by (rule gen_grid_fails_outside)
qed

text \<open>
  The claim as stated, with the error raised before any mutation of the grid, fails: with
  an override at (9, 9) on the 7 x 7 maze, generation has stamped the border, set the
  interior wall, placed the sixteen outer rewards and set \<open>total_rewards\<close> when the
  override raises, and the environment is left holding that grid.
\<close>

theorem generation_fails_after_mutation:
  "(case gen_grid 7 7 outside_override_env of
      Done s \<Rightarrow> False
    | Raised e s \<Rightarrow>
        cells (Grid 7 7) (0, 0) = Empty \<and> cells (grid s) (0, 0) = Wall
        \<and> cells (grid s) (3, 3) = Wall \<and> cells (grid s) (1, 1) = Coin
        \<and> total_rewards s = 16)"
  by code_simp

text \<open>
  C4. A MoveForward step whose candidate cell is off the grid or a wall returns normally,
  leaves the agent's position as it was and increments the step counter by exactly one.
\<close>

theorem step_forward_blocked:
  assumes "same_size s" "agent_inside s" "0 \<le> agent_dir s" "agent_dir s < 4"
    and "blocked s"
  shows "\<exists>r s'. step 2 s = Return r s'
          \<and> agent_pos s' = agent_pos s \<and> step_count s' = step_count s + 1"
proof -
  from base_step_forward[OF assms(1,3,4)] obtain ob where
    b: "base_step 2 s = Return (ob, 0, False, max_steps s \<le> step_count s + 1)
           (s\<lparr>step_count := step_count s + 1,
              agent_pos := (if blocked s then agent_pos s else front_pos s)\<rparr>)"
    by blast
  have i: "agent_inside (s\<lparr>step_count := step_count s + 1,
              agent_pos := (if blocked s then agent_pos s else front_pos s)\<rparr>)"
    using assms(2,5) by (simp add: agent_inside_def)
  from step_after_base[OF b i] show ?thesis using assms(5) by auto
qed

theorem step_forward_blocked_witness:
  "\<exists>r s'. step 2 edge_env = Return r s' \<and> agent_pos s' = (2, 0) \<and> step_count s' = 1"
proof -
  have t: "agent_pos edge_env = (2, 0)" "step_count edge_env = 0"
    by (simp_all add: edge_env_def MazeEnv_def)
  from step_forward_blocked[OF edge_env_ok]
  show ?thesis by (simp add: t)
qed

text \<open>
  C5, as amended. A TurnLeft or TurnRight step always returns, leaves the position and
  sets the direction to (direction + 3) mod 4 or (direction + 1) mod 4. When the agent's
  cell is not a reward the returned reward is 0, \<open>rewards_collected\<close> is unchanged and the
  grid is unchanged. When the agent stands on a reward cell the step collects it: the
  reward is 1, \<open>rewards_collected\<close> grows by one and the cell becomes empty.
\<close>

theorem step_turn:
  assumes "same_size s" "agent_inside s" "a = 0 \<or> a = 1"
  shows "\<exists>r s'. step a s = Return r s'
          \<and> agent_pos s' = agent_pos s
          \<and> agent_dir s' = (agent_dir s + (if a = 0 then 3 else 1)) mod 4
          \<and> (if cells (grid s) (agent_pos s) = Coin
              then reward r = 1 \<and> rewards_collected s' = rewards_collected s + 1
                   \<and> grid s' = (grid s)\<lparr>cells := (cells (grid s))(agent_pos s := Empty)\<rparr>
              else reward r = 0 \<and> rewards_collected s' = rewards_collected s
                   \<and> grid s' = grid s)"
proof -
  from base_step_turn[OF assms(1,3)] obtain ob where
    b: "base_step a s = Return (ob, 0, False, max_steps s \<le> step_count s + 1)
           (s\<lparr>step_count := step_count s + 1,
              agent_dir := (agent_dir s + (if a = 0 then 3 else 1)) mod 4\<rparr>)" by blast
  have i: "agent_inside (s\<lparr>step_count := step_count s + 1,
              agent_dir := (agent_dir s + (if a = 0 then 3 else 1)) mod 4\<rparr>)"
    using assms(2) by (simp add: agent_inside_def)
  from step_after_base[OF b i] show ?thesis by (auto split: if_splits)
qed

theorem step_turn_witness:
  "\<exists>r s'. step 0 fresh_env = Return r s' \<and> agent_pos s' = (2, 2) \<and> agent_dir s' = 2
      \<and> reward r = 0 \<and> rewards_collected s' = 0"
proof -
  have t: "agent_pos fresh_env = (2, 2)" "agent_dir fresh_env = 3"
     "rewards_collected fresh_env = 0" "cells (grid fresh_env) (2, 2) = Empty"
    by (simp_all add: fresh_env_def MazeEnv_def Grid_def)
  from step_turn[OF fresh_env_ok(1,2), of 0]
  show ?thesis by (auto simp: t)
qed

text \<open>
  The claim as stated, with no reward interaction on a turn even when the agent stands on
  a reward cell, fails: after a reset that starts the agent on the reward cell (1, 1), a
  TurnLeft returns reward 1, counts the reward and empties the cell.
\<close>

theorem turn_collects_start_coin:
  "(case reset coin_start_env of
      Return r0 s0 \<Rightarrow>
        agent_pos s0 = (1, 1) \<and> cells (grid s0) (1, 1) = Coin \<and> rewards_collected s0 = 0 \<and>
        (case step 0 s0 of
           Return r s' \<Rightarrow>
             reward r = 1 \<and> rewards_collected s' = 1 \<and> cells (grid s') (1, 1) = Empty
         | Raise e s' \<Rightarrow> False)
    | Raise e s \<Rightarrow> False)"
  by code_simp

text \<open>
  C6, as amended. On a grid of width and height at least 3, the outer placement (which
  reward modes outer and both run first) turns into a reward exactly the cells of the
  band one cell inside the outer ring that are empty when it starts, the four corner
  cells of that band included, and leaves every other cell as it was.
\<close>

theorem place_outer_boundary_rewards_band:
  assumes "width (grid s) = w" "height (grid s) = h" "3 \<le> w" "3 \<le> h"
  shows "\<exists>n g'. place_outer_boundary_rewards w h s = Done (n, s\<lparr>grid := g'\<rparr>)
          \<and> (\<forall>p. cells g' p =
                (if on_band w h p \<and> cells (grid s) p = Empty then Coin else cells (grid s) p))"
  using place_outer_cells[OF assms] by blast

theorem place_outer_boundary_rewards_band_witness:
  "\<exists>n g'. place_outer_boundary_rewards 5 5 fresh_env = Done (n, fresh_env\<lparr>grid := g'\<rparr>)
      \<and> cells g' (1, 1) = Coin \<and> cells g' (2, 1) = Coin \<and> cells g' (2, 2) = Empty"
proof -
  have d: "width (grid fresh_env) = 5" "height (grid fresh_env) = 5"
    by (simp_all add: fresh_env_def MazeEnv_def Grid_def)
  have e: "\<And>p. cells (grid fresh_env) p = Empty"
    by (simp add: fresh_env_def MazeEnv_def Grid_def)
  have p: "(3::int) \<le> 5" by simp
  from place_outer_boundary_rewards_band[OF d p p] obtain n g' where
    r: "place_outer_boundary_rewards 5 5 fresh_env = Done (n, fresh_env\<lparr>grid := g'\<rparr>)"
    and c: "\<And>p. cells g' p =
                (if on_band 5 5 p \<and> cells (grid fresh_env) p = Empty then Coin
                 else cells (grid fresh_env) p)"
    by blast
  have "cells g' (1, 1) = Coin" "cells g' (2, 1) = Coin" "cells g' (2, 2) = Empty"
    by (simp_all add: c e on_band_def)
  then show ?thesis using r by blast
qed

text \<open>
  The claim as stated, with the four corners of the band never receiving a reward, fails:
  on the 7 x 7 grid with its border stamped, the placement finds the band's corners
  (1, 1), (5, 1), (1, 5) and (5, 5) empty and turns each of them into a reward.
\<close>

theorem band_corners_receive_rewards:
  "(case outer_boundary 7 7 (coin_start_env\<lparr>grid := Grid 7 7\<rparr>) of
      Done s \<Rightarrow>
        (case place_outer_boundary_rewards 7 7 s of
           Done r \<Rightarrow>
             cells (grid s) (1, 1) = Empty \<and> cells (grid (snd r)) (1, 1) = Coin
             \<and> cells (grid s) (5, 1) = Empty \<and> cells (grid (snd r)) (5, 1) = Coin
             \<and> cells (grid s) (1, 5) = Empty \<and> cells (grid (snd r)) (1, 5) = Coin
             \<and> cells (grid s) (5, 5) = Empty \<and> cells (grid (snd r)) (5, 5) = Coin
             \<and> fst r = 16
         | Raised e r \<Rightarrow> False)
    | Raised e s \<Rightarrow> False)"
  by code_simp

text \<open>
  C7. For every grid, agent position, direction in 0..3 and window coordinate inside the
  window, \<^verbatim>\<open>gen_obs_grid\<close> returns a view whose cell at that coordinate is a wall when the
  transformed world coordinate is outside the grid, empty when it is the agent's own
  position, and the grid's cell at the world coordinate otherwise.
\<close>

theorem gen_obs_grid_window:
  assumes "same_size s" "0 \<le> agent_dir s" "agent_dir s < 4"
    and "0 \<le> vx" "vx < n" "0 \<le> vy" "vy < n"
  shows "\<exists>v. gen_obs_grid s n = Inr v
          \<and> cells v (vx, vy) =
             (let world = world_pos (agent_pos s) (dir_vec ! nat (agent_dir s))
                            (right_vec ! nat (agent_dir s)) (n div 2) vx vy
              in if \<not> in_bounds (grid s) (fst world) (snd world) then Wall
                 else if world = agent_pos s then Empty
                 else cells (grid s) world)"
  using assms by (rule gen_obs_grid_at)

theorem gen_obs_grid_window_witness:
  "\<exists>v. gen_obs_grid edge_env 3 = Inr v \<and> cells v (1, 0) = Wall"
proof -
  have t: "agent_pos edge_env = (2, 0)" "agent_dir edge_env = 3"
    by (simp_all add: edge_env_def MazeEnv_def)
  have d: "width (grid edge_env) = 5" "height (grid edge_env) = 5"
    by (simp_all add: edge_env_def MazeEnv_def Grid_def)
  have w: "world_pos (2, 0) (dir_vec ! nat 3) (right_vec ! nat 3) (3 div 2) 1 0 = (2, -1)"
    by (simp add: world_pos_def dir_vec_def right_vec_def Let_def)
  have p: "(0::int) \<le> 1" "(1::int) < 3" "(0::int) \<le> 0" "(0::int) < 3" by simp_all
  from gen_obs_grid_window[OF edge_env_ok(1,3,4) p] obtain v where
    g: "gen_obs_grid edge_env 3 = Inr v"
    and c: "cells v (1, 0) =
             (let world = world_pos (agent_pos edge_env) (dir_vec ! nat (agent_dir edge_env))
                            (right_vec ! nat (agent_dir edge_env)) (3 div 2) 1 0
              in if \<not> in_bounds (grid edge_env) (fst world) (snd world) then Wall
                 else if world = agent_pos edge_env then Empty
                 else cells (grid edge_env) world)"
    by blast
  have "cells v (1, 0) = Wall" unfolding c t w by (simp add: in_bounds_def d)
  then show ?thesis using g by blast
qed




section \<open>Properties of the navigation policies\<close>

text \<open>
  C9. Claimed: the production-rule decision returns TurnRight when top-front or top-right
  is a wall, otherwise TurnLeft when mid-left is empty and bot-left is a wall, otherwise
  MoveForward. The
  function in the source is a stub: for every perception it returns \<^verbatim>\<open>None\<close>, which is
  none of the three actions, and in particular differs from the action the documented
  rules give.
\<close>

theorem pr_decide_left_hand_is_stub:
  "pr_decide_left_hand p = None \<and> pr_decide_left_hand p \<noteq> Some (pr_documented_rules p)"
  by (simp add: pr_decide_left_hand_def)

text \<open>
  C10. For each of the three states and every perception of the three flags (wall ahead,
  wall on the left, wall on the right) the state machine agent moves to the state and
  emits the action of the transition table:
  FIND_WALL: wall ahead gives (FOLLOW_WALL, TurnRight), else wall on the left gives
  (FOLLOW_WALL, MoveForward), else (FIND_WALL, MoveForward);
  FOLLOW_WALL: wall ahead gives (TURN_CORNER, TurnRight), else no wall on the left gives
  (FIND_WALL, TurnLeft), else (FOLLOW_WALL, MoveForward);
  TURN_CORNER: wall on the left and no wall ahead gives (FOLLOW_WALL, MoveForward), else
  (TURN_CORNER, TurnRight).
\<close>

theorem sm_decide_left_hand_table:
  "sm_decide_left_hand FIND_WALL \<lparr>wall_ahead = tf, wall_on_left = ml, wall_on_right = mr\<rparr> =
     (if tf then (FOLLOW_WALL, TURN_RIGHT)
      else if ml then (FOLLOW_WALL, MOVE_FORWARD)
      else (FIND_WALL, MOVE_FORWARD))
   \<and> sm_decide_left_hand FOLLOW_WALL \<lparr>wall_ahead = tf, wall_on_left = ml, wall_on_right = mr\<rparr> =
     (if tf then (TURN_CORNER, TURN_RIGHT)
      else if \<not> ml then (FIND_WALL, TURN_LEFT)
      else (FOLLOW_WALL, MOVE_FORWARD))
   \<and> sm_decide_left_hand TURN_CORNER \<lparr>wall_ahead = tf, wall_on_left = ml, wall_on_right = mr\<rparr> =
     (if ml \<and> \<not> tf then (FOLLOW_WALL, MOVE_FORWARD)
      else (TURN_CORNER, TURN_RIGHT))
   \<and> TURN_LEFT = 0 \<and> TURN_RIGHT = 1 \<and> MOVE_FORWARD = 2
   \<and> FIND_WALL \<noteq> FOLLOW_WALL \<and> FIND_WALL \<noteq> TURN_CORNER \<and> FOLLOW_WALL \<noteq> TURN_CORNER"
  by (simp add: sm_decide_left_hand_def FIND_WALL_def FOLLOW_WALL_def TURN_CORNER_def
      TURN_LEFT_def TURN_RIGHT_def MOVE_FORWARD_def)

end
